theory Spec2Isabelle
  imports Complex_Main "HOL-Library.Multiset"
begin

section \<open>Data model\<close>

text \<open>
  A player as the allocator reads it (\<open>shared/schema.ts\<close>, table \<open>players\<close>): the
  numeric id and the four skill columns. The other columns (\<open>name\<close>, \<open>gamesPlayed\<close>,
  \<open>wins\<close>, \<open>plusMinus\<close>, \<open>joinedDate\<close>) are read by neither allocator and are left
  out. The skill columns are SQL \<open>real\<close>, JavaScript numbers at run time; they are
  modelled by exact rationals, so \<open>0.8\<close> is \<open>4/5\<close> and \<open>0.6\<close> is \<open>3/5\<close>, and the
  rounding of floating-point arithmetic is not modelled. The field \<open>id\<close> is called
  \<open>player_id\<close> because \<open>id\<close> is the identity function of HOL.
\<close>

record Player =
  player_id :: int
  offenseSkill :: rat
  defenseSkill :: rat
  ballHandlingSkill :: rat
  overallSkill :: rat

text \<open>The value \<open>generateTeams\<close> returns.\<close>

record TeamAssignment =
  whiteTeam :: "Player list"
  blackTeam :: "Player list"
  benchPlayers :: "Player list"

text \<open>
  What \<open>generateTeams\<close> can throw: the \<open>Error\<close> of its attendance check, with its
  message, and the \<open>TypeError\<close> of a property read on \<open>undefined\<close>. A thrown
  exception is the \<open>Inl\<close> side of the result.
\<close>

datatype exn = Error string | TypeError

section \<open>Server side: \<open>generateTeams\<close>\<close>

subsection \<open>Sorting\<close>

text \<open>
  \<open>[...goingPlayers].sort((a, b) => b.overallSkill - a.overallSkill)\<close>: a stable sort
  by descending overall skill. \<open>sort_key\<close> is the stable insertion sort of the library.
\<close>

definition sortByOverallDesc :: "Player list \<Rightarrow> Player list" where
  "sortByOverallDesc ps = sort_key (\<lambda>p. - overallSkill p) ps"

subsection \<open>Team sizes\<close>

text \<open>
  The branch on \<open>totalPlayers\<close> that sets \<open>playersPerTeam1\<close>, \<open>playersPerTeam2\<close> and
  \<open>benchCount\<close>, in the order of the source. \<open>Math.ceil(n / 2)\<close> is \<open>(n + 1) div 2\<close>
  and \<open>Math.floor(n / 2)\<close> is \<open>n div 2\<close>.
\<close>

definition teamSizes :: "nat \<Rightarrow> nat \<times> nat \<times> nat" where
  "teamSizes totalPlayers =
    (if totalPlayers \<le> 10 then
       (let playersPerTeam1 = (totalPlayers + 1) div 2
        in (playersPerTeam1, totalPlayers - playersPerTeam1, 0))
     else if totalPlayers \<le> 12 then
       (let playersPerTeam1 = (totalPlayers + 1) div 2
        in (playersPerTeam1, totalPlayers - playersPerTeam1, 0))
     else if totalPlayers \<le> 14 then
       (let preferredTeamSize = 6
        in if totalPlayers = 14 then (7, 7, 0)
           else (preferredTeamSize, preferredTeamSize,
                 totalPlayers - (preferredTeamSize + preferredTeamSize)))
     else if totalPlayers \<le> 17 then
       (if totalPlayers mod 2 = 0 then (totalPlayers div 2, totalPlayers div 2, 0)
        else (totalPlayers div 2, (totalPlayers + 1) div 2, 0))
     else
       (let maxTeamSize = 9
        in if totalPlayers \<le> maxTeamSize * 2
           then (totalPlayers div 2, (totalPlayers + 1) div 2, 0)
           else (maxTeamSize, maxTeamSize, totalPlayers - (maxTeamSize + maxTeamSize))))"

definition playersPerTeam1 :: "nat \<Rightarrow> nat" where
  "playersPerTeam1 n = fst (teamSizes n)"

definition playersPerTeam2 :: "nat \<Rightarrow> nat" where
  "playersPerTeam2 n = fst (snd (teamSizes n))"

definition benchCount :: "nat \<Rightarrow> nat" where
  "benchCount n = snd (snd (teamSizes n))"

subsection \<open>Team strength\<close>

definition calculateTeamSkill :: "Player list \<Rightarrow> rat" where
  "calculateTeamSkill team = foldl (\<lambda>sum player. sum + overallSkill player) 0 team"

definition calculatePositionalSkill :: "Player list \<Rightarrow> rat \<times> rat \<times> rat" where
  "calculatePositionalSkill team =
    (foldl (\<lambda>sum player. sum + offenseSkill player) 0 team,
     foldl (\<lambda>sum player. sum + defenseSkill player) 0 team,
     foldl (\<lambda>sum player. sum + ballHandlingSkill player) 0 team)"

text \<open>\<open>whiteStrength\<close> and \<open>blackStrength\<close> of the assignment loop.\<close>

definition teamStrength :: "Player list \<Rightarrow> rat" where
  "teamStrength team =
    (case calculatePositionalSkill team of (offense, defense, ballHandling) \<Rightarrow>
       calculateTeamSkill team + (offense * 0.8) + (defense * 0.8) + (ballHandling * 0.6))"

text \<open>\<open>whiteSizeAdjusted\<close> and \<open>blackSizeAdjusted\<close>.\<close>

definition sizeAdjusted :: "Player list \<Rightarrow> rat" where
  "sizeAdjusted team = teamStrength team / of_nat (max 1 (length team))"

subsection \<open>First phase: the assignment loop\<close>

text \<open>
  The body of \<open>for (const player of remainingPlayers)\<close>, on the pair
  \<open>(whiteTeam, blackTeam)\<close>: the two capacity checks with their \<open>continue\<close>, then the
  size priority, then the weaker team by adjusted strength.
\<close>

definition assignPlayer ::
  "nat \<Rightarrow> nat \<Rightarrow> Player \<Rightarrow> Player list \<times> Player list \<Rightarrow> Player list \<times> Player list" where
  "assignPlayer perTeam1 perTeam2 player teams =
    (case teams of (white, black) \<Rightarrow>
      (let whiteSizeAdjusted = sizeAdjusted white;
           blackSizeAdjusted = sizeAdjusted black
       in if length white \<ge> perTeam1 then (white, black @ [player])
          else if length black \<ge> perTeam2 then (white @ [player], black)
          else
            (let sizeDifference = \<bar>int (length white) - int (length black)\<bar>
             in if sizeDifference \<ge> 2 then
                  (if length white < length black then (white @ [player], black)
                   else (white, black @ [player]))
                else
                  (if whiteSizeAdjusted \<le> blackSizeAdjusted then (white @ [player], black)
                   else (white, black @ [player])))))"

definition assignRemaining ::
  "nat \<Rightarrow> nat \<Rightarrow> Player list \<Rightarrow> Player list \<times> Player list \<Rightarrow> Player list \<times> Player list" where
  "assignRemaining perTeam1 perTeam2 remainingPlayers teams =
    fold (assignPlayer perTeam1 perTeam2) remainingPlayers teams"

subsection \<open>Second phase: the size repair loops\<close>

text \<open>
  \<open>team.map((p, i) => ({ index: i, skill: p.overallSkill })).sort((a, b) => a.skill - b.skill)[0].index\<close>
  and the same with the comparison reversed. The loops call them on a team that their
  guard has found non-empty.
\<close>

definition lowestSkillIndex :: "Player list \<Rightarrow> nat" where
  "lowestSkillIndex team =
    fst (hd (sort_key snd (zip [0..<length team] (map overallSkill team))))"

definition highestSkillIndex :: "Player list \<Rightarrow> nat" where
  "highestSkillIndex team =
    fst (hd (sort_key (\<lambda>e. - snd e) (zip [0..<length team] (map overallSkill team))))"

text \<open>
  \<open>whiteTeam.push(blackTeam.splice(playerIndex, 1)[0])\<close> and
  \<open>blackTeam.push(whiteTeam.splice(playerIndex, 1)[0])\<close>, on the pair
  \<open>(whiteTeam, blackTeam)\<close>.
\<close>

definition blackToWhite :: "nat \<Rightarrow> Player list \<times> Player list \<Rightarrow> Player list \<times> Player list" where
  "blackToWhite playerIndex teams =
    (case teams of (white, black) \<Rightarrow>
      (white @ [black ! playerIndex], take playerIndex black @ drop (Suc playerIndex) black))"

definition whiteToBlack :: "nat \<Rightarrow> Player list \<times> Player list \<Rightarrow> Player list \<times> Player list" where
  "whiteToBlack playerIndex teams =
    (case teams of (white, black) \<Rightarrow>
      (take playerIndex white @ drop (Suc playerIndex) white, black @ [white ! playerIndex]))"

lemma hd_sort_key_zip_index:
  assumes "xs \<noteq> []"
  shows "fst (hd (sort_key f (zip [0..<length xs] xs))) < length xs"
proof -
  let ?zs = "sort_key f (zip [0..<length xs] xs)"
  have "set ?zs = set (zip [0..<length xs] xs)" by simp
  moreover have "zip [0..<length xs] xs \<noteq> []"
    using assms by (cases xs) (simp_all add: upt_rec)
  ultimately have "?zs \<noteq> []" by (metis set_empty)
  then have "hd ?zs \<in> set ?zs" by (rule hd_in_set)
  then have "hd ?zs \<in> set (zip [0..<length xs] xs)" by simp
  then have "fst (hd ?zs) \<in> set [0..<length xs]"
    by (metis in_set_zipE prod.collapse)
  then show ?thesis by simp
qed

lemma lowestSkillIndex_less: "team \<noteq> [] \<Longrightarrow> lowestSkillIndex team < length team"
  using hd_sort_key_zip_index [of "map overallSkill team" snd]
  by (simp add: lowestSkillIndex_def)

lemma highestSkillIndex_less: "team \<noteq> [] \<Longrightarrow> highestSkillIndex team < length team"
  using hd_sort_key_zip_index [of "map overallSkill team" "\<lambda>e. - snd e"]
  by (simp add: highestSkillIndex_def)

lemma length_remove_index:
  "i < length xs \<Longrightarrow> length (take i xs @ drop (Suc i) xs) < length xs"
  by simp

text \<open>
  \<open>while (whiteTeam.length < playersPerTeam1 && blackTeam.length > playersPerTeam2)\<close>:
  the lowest-skilled black player moves to white.
\<close>

function fillWhite :: "nat \<Rightarrow> nat \<Rightarrow> Player list \<times> Player list \<Rightarrow> Player list \<times> Player list" where
  "fillWhite perTeam1 perTeam2 (white, black) =
    (if length white < perTeam1 \<and> length black > perTeam2 then
       fillWhite perTeam1 perTeam2 (blackToWhite (lowestSkillIndex black) (white, black))
     else (white, black))"
  by pat_completeness auto
termination
proof (relation "measure (\<lambda>(p1, p2, white, black). length black)", goal_cases)
  case 1
  show ?case by simp
next
  case (2 perTeam1 perTeam2 white black)
  then have "black \<noteq> []" by auto
  then have "lowestSkillIndex black < length black" by (rule lowestSkillIndex_less)
  then show ?case
    using length_remove_index [of "lowestSkillIndex black" black]
    by (simp add: blackToWhite_def)
qed

text \<open>
  \<open>while (blackTeam.length < playersPerTeam2 && whiteTeam.length > playersPerTeam1)\<close>:
  the lowest-skilled white player moves to black.
\<close>

function fillBlack :: "nat \<Rightarrow> nat \<Rightarrow> Player list \<times> Player list \<Rightarrow> Player list \<times> Player list" where
  "fillBlack perTeam1 perTeam2 (white, black) =
    (if length black < perTeam2 \<and> length white > perTeam1 then
       fillBlack perTeam1 perTeam2 (whiteToBlack (lowestSkillIndex white) (white, black))
     else (white, black))"
  by pat_completeness auto
termination
proof (relation "measure (\<lambda>(p1, p2, white, black). length white)", goal_cases)
  case 1
  show ?case by simp
next
  case (2 perTeam1 perTeam2 white black)
  then have "white \<noteq> []" by auto
  then have "lowestSkillIndex white < length white" by (rule lowestSkillIndex_less)
  then show ?case
    using length_remove_index [of "lowestSkillIndex white" white]
    by (simp add: whiteToBlack_def)
qed

text \<open>
  \<open>while (whiteTeam.length > playersPerTeam1)\<close>: the highest-skilled white player moves
  to black.
\<close>

function trimWhite :: "nat \<Rightarrow> Player list \<times> Player list \<Rightarrow> Player list \<times> Player list" where
  "trimWhite perTeam1 (white, black) =
    (if length white > perTeam1 then
       trimWhite perTeam1 (whiteToBlack (highestSkillIndex white) (white, black))
     else (white, black))"
  by pat_completeness auto
termination
proof (relation "measure (\<lambda>(p1, white, black). length white)", goal_cases)
  case 1
  show ?case by simp
next
  case (2 perTeam1 white black)
  then have "white \<noteq> []" by auto
  then have "highestSkillIndex white < length white" by (rule highestSkillIndex_less)
  then show ?case
    using length_remove_index [of "highestSkillIndex white" white]
    by (simp add: whiteToBlack_def)
qed

text \<open>
  \<open>while (blackTeam.length > playersPerTeam2)\<close>: the highest-skilled black player moves
  to white.
\<close>

function trimBlack :: "nat \<Rightarrow> Player list \<times> Player list \<Rightarrow> Player list \<times> Player list" where
  "trimBlack perTeam2 (white, black) =
    (if length black > perTeam2 then
       trimBlack perTeam2 (blackToWhite (highestSkillIndex black) (white, black))
     else (white, black))"
  by pat_completeness auto
termination
proof (relation "measure (\<lambda>(p2, white, black). length black)", goal_cases)
  case 1
  show ?case by simp
next
  case (2 perTeam2 white black)
  then have "black \<noteq> []" by auto
  then have "highestSkillIndex black < length black" by (rule highestSkillIndex_less)
  then show ?case
    using length_remove_index [of "highestSkillIndex black" black]
    by (simp add: blackToWhite_def)
qed

text \<open>
  The second phase as the source orders it: each loop sits under an \<open>if\<close> with the
  loop's own condition.
\<close>

definition adjustSizes :: "nat \<Rightarrow> nat \<Rightarrow> Player list \<times> Player list \<Rightarrow> Player list \<times> Player list" where
  "adjustSizes perTeam1 perTeam2 teams =
    (let t1 = (if length (fst teams) < perTeam1 \<and> length (snd teams) > perTeam2
               then fillWhite perTeam1 perTeam2 teams else teams);
         t2 = (if length (snd t1) < perTeam2 \<and> length (fst t1) > perTeam1
               then fillBlack perTeam1 perTeam2 t1 else t1);
         t3 = (if length (fst t2) > perTeam1 then trimWhite perTeam1 t2 else t2);
         t4 = (if length (snd t3) > perTeam2 then trimBlack perTeam2 t3 else t3)
     in t4)"

text \<open>
  The number of passes through each loop body, by the same guards and the same steps.
\<close>

function fillWhiteMoves :: "nat \<Rightarrow> nat \<Rightarrow> Player list \<times> Player list \<Rightarrow> nat" where
  "fillWhiteMoves perTeam1 perTeam2 (white, black) =
    (if length white < perTeam1 \<and> length black > perTeam2 then
       Suc (fillWhiteMoves perTeam1 perTeam2 (blackToWhite (lowestSkillIndex black) (white, black)))
     else 0)"
  by pat_completeness auto
termination
proof (relation "measure (\<lambda>(p1, p2, white, black). length black)", goal_cases)
  case 1
  show ?case by simp
next
  case (2 perTeam1 perTeam2 white black)
  then have "black \<noteq> []" by auto
  then have "lowestSkillIndex black < length black" by (rule lowestSkillIndex_less)
  then show ?case
    using length_remove_index [of "lowestSkillIndex black" black]
    by (simp add: blackToWhite_def)
qed

function fillBlackMoves :: "nat \<Rightarrow> nat \<Rightarrow> Player list \<times> Player list \<Rightarrow> nat" where
  "fillBlackMoves perTeam1 perTeam2 (white, black) =
    (if length black < perTeam2 \<and> length white > perTeam1 then
       Suc (fillBlackMoves perTeam1 perTeam2 (whiteToBlack (lowestSkillIndex white) (white, black)))
     else 0)"
  by pat_completeness auto
termination
proof (relation "measure (\<lambda>(p1, p2, white, black). length white)", goal_cases)
  case 1
  show ?case by simp
next
  case (2 perTeam1 perTeam2 white black)
  then have "white \<noteq> []" by auto
  then have "lowestSkillIndex white < length white" by (rule lowestSkillIndex_less)
  then show ?case
    using length_remove_index [of "lowestSkillIndex white" white]
    by (simp add: whiteToBlack_def)
qed

function trimWhiteMoves :: "nat \<Rightarrow> Player list \<times> Player list \<Rightarrow> nat" where
  "trimWhiteMoves perTeam1 (white, black) =
    (if length white > perTeam1 then
       Suc (trimWhiteMoves perTeam1 (whiteToBlack (highestSkillIndex white) (white, black)))
     else 0)"
  by pat_completeness auto
termination
proof (relation "measure (\<lambda>(p1, white, black). length white)", goal_cases)
  case 1
  show ?case by simp
next
  case (2 perTeam1 white black)
  then have "white \<noteq> []" by auto
  then have "highestSkillIndex white < length white" by (rule highestSkillIndex_less)
  then show ?case
    using length_remove_index [of "highestSkillIndex white" white]
    by (simp add: whiteToBlack_def)
qed

function trimBlackMoves :: "nat \<Rightarrow> Player list \<times> Player list \<Rightarrow> nat" where
  "trimBlackMoves perTeam2 (white, black) =
    (if length black > perTeam2 then
       Suc (trimBlackMoves perTeam2 (blackToWhite (highestSkillIndex black) (white, black)))
     else 0)"
  by pat_completeness auto
termination
proof (relation "measure (\<lambda>(p2, white, black). length black)", goal_cases)
  case 1
  show ?case by simp
next
  case (2 perTeam2 white black)
  then have "black \<noteq> []" by auto
  then have "highestSkillIndex black < length black" by (rule highestSkillIndex_less)
  then show ?case
    using length_remove_index [of "highestSkillIndex black" black]
    by (simp add: blackToWhite_def)
qed

text \<open>The moves of the whole second phase, loop after loop.\<close>

definition adjustSizesMoves :: "nat \<Rightarrow> nat \<Rightarrow> Player list \<times> Player list \<Rightarrow> nat" where
  "adjustSizesMoves perTeam1 perTeam2 teams =
    (let m1 = (if length (fst teams) < perTeam1 \<and> length (snd teams) > perTeam2
               then fillWhiteMoves perTeam1 perTeam2 teams else 0);
         t1 = (if length (fst teams) < perTeam1 \<and> length (snd teams) > perTeam2
               then fillWhite perTeam1 perTeam2 teams else teams);
         m2 = (if length (snd t1) < perTeam2 \<and> length (fst t1) > perTeam1
               then fillBlackMoves perTeam1 perTeam2 t1 else 0);
         t2 = (if length (snd t1) < perTeam2 \<and> length (fst t1) > perTeam1
               then fillBlack perTeam1 perTeam2 t1 else t1);
         m3 = (if length (fst t2) > perTeam1 then trimWhiteMoves perTeam1 t2 else 0);
         t3 = (if length (fst t2) > perTeam1 then trimWhite perTeam1 t2 else t2);
         m4 = (if length (snd t3) > perTeam2 then trimBlackMoves perTeam2 t3 else 0)
     in m1 + m2 + m3 + m4)"

subsection \<open>The allocator\<close>

text \<open>
  \<open>generateTeams\<close> from \<open>sortedPlayers\<close> on, as a function of \<open>goingPlayers\<close>.
  \<open>slice(0, k)\<close> is \<open>take k\<close> and \<open>slice(k)\<close> is \<open>drop k\<close>.

  \<open>actualActivePlayers[0]\<close> and \<open>actualActivePlayers[1]\<close> are pushed without a check.
  With fewer than two going players at least one of them is \<open>undefined\<close>, so one team
  holds \<open>undefined\<close> and has one member more than its size (sizes \<open>(0, 0)\<close> for no
  player, \<open>(1, 0)\<close> for one); the assignment loop has nothing to do, and the loop of the
  second phase that trims that team reads \<open>p.overallSkill\<close> of \<open>undefined\<close>, which
  throws a \<open>TypeError\<close>.
\<close>

definition allocateGoing :: "Player list \<Rightarrow> exn + TeamAssignment" where
  "allocateGoing goingPlayers =
    (let sortedPlayers = sortByOverallDesc goingPlayers;
         totalPlayers = length sortedPlayers;
         perTeam1 = playersPerTeam1 totalPlayers;
         perTeam2 = playersPerTeam2 totalPlayers;
         totalActivePlayers = perTeam1 + perTeam2;
         activePlayers = take totalActivePlayers sortedPlayers;
         bench = drop totalActivePlayers sortedPlayers;
         actualActivePlayers = take (perTeam1 + perTeam2) activePlayers
     in if length actualActivePlayers < 2 then Inl TypeError
        else
          (let white = [actualActivePlayers ! 0];
               black = [actualActivePlayers ! 1];
               remainingPlayers = sortByOverallDesc (drop 2 actualActivePlayers);
               assigned = assignRemaining perTeam1 perTeam2 remainingPlayers (white, black);
               adjusted = adjustSizes perTeam1 perTeam2 assigned
           in Inr \<lparr>whiteTeam = fst adjusted, blackTeam = snd adjusted, benchPlayers = bench\<rparr>))"

text \<open>
  \<open>generateTeams(gameId)\<close>, given what it reads from the database: \<open>playerIds\<close>, the
  player ids of the game's registrations with status \<open>"going"\<close>, and
  \<open>registeredPlayers\<close>, the result of \<open>getPlayers()\<close>. The write of the id lists to the
  game row is not part of the returned value and is left out.
\<close>

definition generateTeams :: "int list \<Rightarrow> Player list \<Rightarrow> exn + TeamAssignment" where
  "generateTeams playerIds registeredPlayers =
    (if length playerIds < 8
     then Inl (Error ''At least 8 players need to be registered to generate teams'')
     else allocateGoing (filter (\<lambda>player. player_id player \<in> set playerIds) registeredPlayers))"

text \<open>
  The pair \<open>(whiteTeam, blackTeam)\<close> of \<open>generateTeams\<close> when its assignment loop
  ends, for at least two going players: the same lines as in \<open>allocateGoing\<close>, cut
  before the second phase.
\<close>

definition firstPhase :: "Player list \<Rightarrow> Player list \<times> Player list" where
  "firstPhase goingPlayers =
    (let sortedPlayers = sortByOverallDesc goingPlayers;
         totalPlayers = length sortedPlayers;
         perTeam1 = playersPerTeam1 totalPlayers;
         perTeam2 = playersPerTeam2 totalPlayers;
         totalActivePlayers = perTeam1 + perTeam2;
         activePlayers = take totalActivePlayers sortedPlayers;
         actualActivePlayers = take (perTeam1 + perTeam2) activePlayers;
         white = [actualActivePlayers ! 0];
         black = [actualActivePlayers ! 1];
         remainingPlayers = sortByOverallDesc (drop 2 actualActivePlayers)
     in assignRemaining perTeam1 perTeam2 remainingPlayers (white, black))"

section \<open>Client side: \<open>generateBalancedTeams\<close>\<close>

text \<open>
  The callback of \<open>sortedPlayers.forEach((player, index) => ...)\<close>, on the state
  \<open>(whiteTeam, blackTeam, whiteTeamSkill, blackTeamSkill)\<close>.
\<close>

definition draftPlayer ::
  "Player \<times> nat \<Rightarrow> Player list \<times> Player list \<times> rat \<times> rat \<Rightarrow> Player list \<times> Player list \<times> rat \<times> rat" where
  "draftPlayer entry state =
    (case entry of (player, index) \<Rightarrow>
     case state of (white, black, whiteTeamSkill, blackTeamSkill) \<Rightarrow>
       if (whiteTeamSkill \<le> blackTeamSkill \<and> index mod 2 = 0) \<or>
          (whiteTeamSkill < blackTeamSkill \<and> index mod 2 = 1)
       then (white @ [player], black, whiteTeamSkill + overallSkill player, blackTeamSkill)
       else (white, black @ [player], whiteTeamSkill, blackTeamSkill + overallSkill player))"

text \<open>
  \<open>team.indexOf(player)\<close> for a player that \<open>team.find\<close> has just returned: the first
  position that holds it.
\<close>

fun indexOf :: "Player list \<Rightarrow> Player \<Rightarrow> nat" where
  "indexOf [] player = 0"
| "indexOf (p # team) player = (if p = player then 0 else Suc (indexOf team player))"

text \<open>
  The \<open>for\<close> loop over the mid-range indices with its \<open>break\<close>, on the list of the
  indices still to visit. \<open>sortedPlayers[i + 1]?.id\<close> is \<open>undefined\<close> past the end of
  the list, and then \<open>find\<close> finds no player. \<open>whiteTeamSkill\<close> and \<open>blackTeamSkill\<close>
  do not change in the loop. \<open>splice(k, 1, p)\<close> replaces the element at \<open>k\<close>.
  Every index the loop visits is below \<open>2 * floor(n / 3)\<close>, so \<open>sortedPlayers[i]\<close>
  is a player of the list.
\<close>

fun trySwaps ::
  "Player list \<Rightarrow> rat \<Rightarrow> rat \<Rightarrow> nat list \<Rightarrow> Player list \<times> Player list \<Rightarrow> Player list \<times> Player list" where
  "trySwaps sortedPlayers whiteTeamSkill blackTeamSkill [] teams = teams"
| "trySwaps sortedPlayers whiteTeamSkill blackTeamSkill (i # rest) teams =
    (let white = fst teams;
         black = snd teams;
         whitePlayer = find (\<lambda>p. player_id p = player_id (sortedPlayers ! i)) white;
         blackPlayer =
           (if i + 1 < length sortedPlayers
            then find (\<lambda>p. player_id p = player_id (sortedPlayers ! (i + 1))) black
            else None)
     in case (whitePlayer, blackPlayer) of
          (Some wp, Some bp) \<Rightarrow>
            (let newWhiteSkill = whiteTeamSkill - overallSkill wp + overallSkill bp;
                 newBlackSkill = blackTeamSkill - overallSkill bp + overallSkill wp
             in if \<bar>newWhiteSkill - newBlackSkill\<bar> < \<bar>whiteTeamSkill - blackTeamSkill\<bar>
                then (white[indexOf white wp := bp], black[indexOf black bp := wp])
                else trySwaps sortedPlayers whiteTeamSkill blackTeamSkill rest teams)
        | _ \<Rightarrow> trySwaps sortedPlayers whiteTeamSkill blackTeamSkill rest teams)"

text \<open>
  \<open>generateBalancedTeams(players)\<close>; \<open>None\<close> is a \<open>null\<close> or \<open>undefined\<close> argument.
  The result is the pair \<open>(whiteTeam, blackTeam)\<close>.
\<close>

definition generateBalancedTeams :: "Player list option \<Rightarrow> Player list \<times> Player list" where
  "generateBalancedTeams players =
    (case players of
       None \<Rightarrow> ([], [])
     | Some ps \<Rightarrow>
        if length ps < 2 then ([], [])
        else
          (let sortedPlayers = sortByOverallDesc ps;
               n = length sortedPlayers
           in case fold draftPlayer (zip sortedPlayers [0..<n]) ([], [], 0, 0) of
                (white, black, whiteTeamSkill, blackTeamSkill) \<Rightarrow>
                  if n mod 2 = 1 \<and> \<bar>whiteTeamSkill - blackTeamSkill\<bar> > 1
                  then trySwaps sortedPlayers whiteTeamSkill blackTeamSkill
                         [n div 3 ..< 2 * (n div 3)] (white, black)
                  else (white, black)))"

section \<open>The specification's wording\<close>

text \<open>
  The Size Planner table as the specification writes it, to be compared with
  \<open>teamSizes\<close>: up to 12 players \<open>ceil(n/2)\<close>, \<open>floor(n/2)\<close> and no bench; 13 players
  6, 6 and 1; 14 players 7, 7 and 0; 15 to 17 players \<open>floor(n/2)\<close>, \<open>ceil(n/2)\<close> and no
  bench; from 18 players on \<open>min(9, floor(n/2))\<close>, \<open>min(9, ceil(n/2))\<close> and the rest.
\<close>

definition sizePlannerTable :: "nat \<Rightarrow> nat \<times> nat \<times> nat" where
  "sizePlannerTable n =
    (if n \<le> 12 then ((n + 1) div 2, n div 2, 0)
     else if n = 13 then (6, 6, 1)
     else if n = 14 then (7, 7, 0)
     else if n \<le> 17 then (n div 2, (n + 1) div 2, 0)
     else (min 9 (n div 2), min 9 ((n + 1) div 2),
           n - min 9 (n div 2) - min 9 ((n + 1) div 2)))"




text \<open>A player whose four skills have the same value, for the examples.\<close>

definition uniformPlayer :: "int \<Rightarrow> rat \<Rightarrow> Player" where
  "uniformPlayer i s =
    \<lparr>player_id = i, offenseSkill = s, defenseSkill = s, ballHandlingSkill = s, overallSkill = s\<rparr>"

text \<open>
  The roster of the specification's second scenario: 13 players with the skills
  9, 8, 7, 6, 6, 5, 5, 4, 4, 3, 3, 2, 1.
\<close>

definition scenario2 :: "Player list" where
  "scenario2 = map (\<lambda>(i, s). uniformPlayer i s)
     [(1, 9), (2, 8), (3, 7), (4, 6), (5, 6), (6, 5), (7, 5), (8, 4), (9, 4), (10, 3), (11, 3),
      (12, 2), (13, 1)]"

section \<open>Properties of the parts\<close>

subsection \<open>Team sizes\<close>

lemma teamSizes_sum:
  "playersPerTeam1 n + playersPerTeam2 n + benchCount n = n"
  unfolding playersPerTeam1_def playersPerTeam2_def benchCount_def teamSizes_def Let_def
  by (simp; presburger)

lemma perTeam_pos:
  "2 \<le> n \<Longrightarrow> 1 \<le> playersPerTeam1 n \<and> 1 \<le> playersPerTeam2 n"
  unfolding playersPerTeam1_def playersPerTeam2_def teamSizes_def Let_def
  by (simp; presburger)

subsection \<open>The assignment loop\<close>

lemma assignPlayer_mset:
  "mset (fst (assignPlayer p1 p2 x t)) + mset (snd (assignPlayer p1 p2 x t)) =
   mset (fst t) + mset (snd t) + {#x#}"
  by (cases t) (simp add: assignPlayer_def Let_def)

lemma assignPlayer_lengths:
  assumes "length (fst t) \<le> p1" "length (snd t) \<le> p2" "length (fst t) + length (snd t) < p1 + p2"
  shows "length (fst (assignPlayer p1 p2 x t)) \<le> p1 \<and>
         length (snd (assignPlayer p1 p2 x t)) \<le> p2 \<and>
         length (fst (assignPlayer p1 p2 x t)) + length (snd (assignPlayer p1 p2 x t)) =
           Suc (length (fst t) + length (snd t))"
  using assms by (cases t) (auto simp: assignPlayer_def Let_def)

lemma assignRemaining_mset:
  "mset (fst (assignRemaining p1 p2 xs t)) + mset (snd (assignRemaining p1 p2 xs t)) =
   mset (fst t) + mset (snd t) + mset xs"
  unfolding assignRemaining_def
  by (induction xs arbitrary: t) (simp_all add: assignPlayer_mset)

lemma assignRemaining_lengths:
  assumes "length (fst t) \<le> p1" "length (snd t) \<le> p2"
    "length (fst t) + length (snd t) + length xs = p1 + p2"
  shows "length (fst (assignRemaining p1 p2 xs t)) = p1 \<and>
         length (snd (assignRemaining p1 p2 xs t)) = p2"
  using assms unfolding assignRemaining_def
proof (induction xs arbitrary: t)
  case Nil
  then show ?case by simp
next
  case (Cons x xs)
  have lt: "length (fst t) + length (snd t) < p1 + p2" using Cons.prems by simp
  note st = assignPlayer_lengths [OF Cons.prems(1) Cons.prems(2) lt, of x]
  have "length (fst (fold (assignPlayer p1 p2) xs (assignPlayer p1 p2 x t))) = p1 \<and>
        length (snd (fold (assignPlayer p1 p2) xs (assignPlayer p1 p2 x t))) = p2"
    using st Cons.prems(3) by (intro Cons.IH) simp_all
  then show ?case by simp
qed

subsection \<open>The second phase on teams of the planned sizes\<close>

lemma adjustSizes_exact:
  "length (fst t) = p1 \<Longrightarrow> length (snd t) = p2 \<Longrightarrow> adjustSizes p1 p2 t = t"
  by (simp add: adjustSizes_def)

lemma adjustSizesMoves_exact:
  "length (fst t) = p1 \<Longrightarrow> length (snd t) = p2 \<Longrightarrow> adjustSizesMoves p1 p2 t = 0"
  by (simp add: adjustSizesMoves_def)



subsection \<open>The allocator after its first phase\<close>

lemma active_length:
  "2 \<le> length ps \<Longrightarrow>
   length (take (playersPerTeam1 (length ps) + playersPerTeam2 (length ps)) (sortByOverallDesc ps))
     = playersPerTeam1 (length ps) + playersPerTeam2 (length ps)"
  using teamSizes_sum [of "length ps"] by (simp add: sortByOverallDesc_def)

lemma active_ge2:
  "2 \<le> n \<Longrightarrow> 2 \<le> playersPerTeam1 n + playersPerTeam2 n"
  using perTeam_pos [of n] by simp

lemma firstPhase_lengths:
  assumes "2 \<le> length ps"
  shows "length (fst (firstPhase ps)) = playersPerTeam1 (length ps) \<and>
         length (snd (firstPhase ps)) = playersPerTeam2 (length ps)"
proof -
  let ?n = "length ps"
  let ?p1 = "playersPerTeam1 ?n" and ?p2 = "playersPerTeam2 ?n"
  let ?act = "take (?p1 + ?p2) (sortByOverallDesc ps)"
  have len: "length ?act = ?p1 + ?p2" using assms by (rule active_length)
  have ge: "2 \<le> ?p1 + ?p2" using assms by (rule active_ge2)
  have pos: "1 \<le> ?p1 \<and> 1 \<le> ?p2" using assms by (rule perTeam_pos)
  have "length (fst (assignRemaining ?p1 ?p2 (sortByOverallDesc (drop 2 ?act)) ([?act ! 0], [?act ! 1]))) = ?p1 \<and>
        length (snd (assignRemaining ?p1 ?p2 (sortByOverallDesc (drop 2 ?act)) ([?act ! 0], [?act ! 1]))) = ?p2"
  proof (rule assignRemaining_lengths)
    show "length (fst ([?act ! 0], [?act ! 1])) \<le> ?p1" using pos by simp
    show "length (snd ([?act ! 0], [?act ! 1])) \<le> ?p2" using pos by simp
    have "length (sortByOverallDesc (drop 2 ?act)) = ?p1 + ?p2 - 2"
      using len by (simp add: sortByOverallDesc_def)
    then show "length (fst ([?act ! 0], [?act ! 1])) + length (snd ([?act ! 0], [?act ! 1]))
        + length (sortByOverallDesc (drop 2 ?act)) = ?p1 + ?p2"
      using ge by simp
  qed
  then show ?thesis
    by (simp add: firstPhase_def Let_def sortByOverallDesc_def)
qed

lemma allocateGoing_firstPhase:
  assumes "2 \<le> length ps"
  shows "allocateGoing ps =
    Inr \<lparr>whiteTeam = fst (firstPhase ps), blackTeam = snd (firstPhase ps),
         benchPlayers = drop (playersPerTeam1 (length ps) + playersPerTeam2 (length ps))
                          (sortByOverallDesc ps)\<rparr>"
proof -
  let ?n = "length ps"
  let ?p1 = "playersPerTeam1 ?n" and ?p2 = "playersPerTeam2 ?n"
  have len: "length (take (?p1 + ?p2) (sortByOverallDesc ps)) = ?p1 + ?p2"
    using assms by (rule active_length)
  have ge: "2 \<le> ?p1 + ?p2" using assms by (rule active_ge2)
  have adj: "adjustSizes ?p1 ?p2 (firstPhase ps) = firstPhase ps"
    using firstPhase_lengths [OF assms] by (simp add: adjustSizes_exact)
  have n: "length (sortByOverallDesc ps) = ?n" by (simp add: sortByOverallDesc_def)
  have "\<not> length (take (?p1 + ?p2) (take (?p1 + ?p2) (sortByOverallDesc ps))) < 2"
    using len ge by simp
  then show ?thesis
    using adj unfolding allocateGoing_def firstPhase_def Let_def n
    by simp
qed

subsection \<open>The repair loops from any pair of teams\<close>

lemma mset_remove_index:
  "i < length xs \<Longrightarrow> mset (take i xs @ drop (Suc i) xs) + {#xs ! i#} = mset xs"
  by (metis add_mset_add_single append_take_drop_id id_take_nth_drop mset.simps(2) mset_append union_mset_add_mset_right)

lemma fillWhiteMoves_eq:
  "fillWhiteMoves p1 p2 (w, b) = min (p1 - length w) (length b - p2)"
proof (induction p1 p2 "(w, b)" arbitrary: w b rule: fillWhiteMoves.induct)
  case (1 p1 p2 w b)
  show ?case
  proof (cases "length w < p1 \<and> length b > p2")
    case True
    then have "b \<noteq> []" by auto
    then have i: "lowestSkillIndex b < length b" by (rule lowestSkillIndex_less)
    have "fillWhiteMoves p1 p2 (w @ [b ! lowestSkillIndex b],
            take (lowestSkillIndex b) b @ drop (Suc (lowestSkillIndex b)) b)
          = min (p1 - length (w @ [b ! lowestSkillIndex b]))
                (length (take (lowestSkillIndex b) b @ drop (Suc (lowestSkillIndex b)) b) - p2)"
      using True by (intro "1.hyps") (simp_all add: blackToWhite_def)
    then show ?thesis using True i
      by (subst fillWhiteMoves.simps) (simp add: blackToWhite_def; linarith)
  next
    case False
    then show ?thesis by (subst fillWhiteMoves.simps) auto
  qed
qed



lemma fillBlackMoves_eq:
  "fillBlackMoves p1 p2 (w, b) = min (p2 - length b) (length w - p1)"
proof (induction p1 p2 "(w, b)" arbitrary: w b rule: fillBlackMoves.induct)
  case (1 p1 p2 w b)
  show ?case
  proof (cases "length b < p2 \<and> length w > p1")
    case True
    then have "w \<noteq> []" by auto
    then have i: "lowestSkillIndex w < length w" by (rule lowestSkillIndex_less)
    have "fillBlackMoves p1 p2 (take (lowestSkillIndex w) w @ drop (Suc (lowestSkillIndex w)) w,
            b @ [w ! lowestSkillIndex w])
          = min (p2 - length (b @ [w ! lowestSkillIndex w]))
                (length (take (lowestSkillIndex w) w @ drop (Suc (lowestSkillIndex w)) w) - p1)"
      using True by (intro "1.hyps") (simp_all add: whiteToBlack_def)
    then show ?thesis using True i
      by (subst fillBlackMoves.simps) (simp add: whiteToBlack_def; linarith)
  next
    case False
    then show ?thesis by (subst fillBlackMoves.simps) auto
  qed
qed

lemma trimWhiteMoves_eq: "trimWhiteMoves p1 (w, b) = length w - p1"
proof (induction p1 "(w, b)" arbitrary: w b rule: trimWhiteMoves.induct)
  case (1 p1 w b)
  show ?case
  proof (cases "length w > p1")
    case True
    then have "w \<noteq> []" by auto
    then have i: "highestSkillIndex w < length w" by (rule highestSkillIndex_less)
    have "trimWhiteMoves p1 (take (highestSkillIndex w) w @ drop (Suc (highestSkillIndex w)) w,
            b @ [w ! highestSkillIndex w])
          = length (take (highestSkillIndex w) w @ drop (Suc (highestSkillIndex w)) w) - p1"
      using True by (intro "1.hyps") (simp_all add: whiteToBlack_def)
    then show ?thesis using True i
      by (subst trimWhiteMoves.simps) (simp add: whiteToBlack_def; linarith)
  next
    case False
    then show ?thesis by (subst trimWhiteMoves.simps) auto
  qed
qed

lemma trimBlackMoves_eq: "trimBlackMoves p2 (w, b) = length b - p2"
proof (induction p2 "(w, b)" arbitrary: w b rule: trimBlackMoves.induct)
  case (1 p2 w b)
  show ?case
  proof (cases "length b > p2")
    case True
    then have "b \<noteq> []" by auto
    then have i: "highestSkillIndex b < length b" by (rule highestSkillIndex_less)
    have "trimBlackMoves p2 (w @ [b ! highestSkillIndex b],
            take (highestSkillIndex b) b @ drop (Suc (highestSkillIndex b)) b)
          = length (take (highestSkillIndex b) b @ drop (Suc (highestSkillIndex b)) b) - p2"
      using True by (intro "1.hyps") (simp_all add: blackToWhite_def)
    then show ?thesis using True i
      by (subst trimBlackMoves.simps) (simp add: blackToWhite_def; linarith)
  next
    case False
    then show ?thesis by (subst trimBlackMoves.simps) auto
  qed
qed

text \<open>What one move keeps and what it changes.\<close>

lemma blackToWhite_props:
  assumes "i < length b"
  shows "length (fst (blackToWhite i (w, b))) = Suc (length w)"
    and "Suc (length (snd (blackToWhite i (w, b)))) = length b"
    and "mset (fst (blackToWhite i (w, b))) + mset (snd (blackToWhite i (w, b))) = mset w + mset b"
proof -
  show "length (fst (blackToWhite i (w, b))) = Suc (length w)"
    by (simp add: blackToWhite_def)
  show "Suc (length (snd (blackToWhite i (w, b)))) = length b"
    using assms by (simp add: blackToWhite_def)
  have "mset (take i b @ drop (Suc i) b) + {#b ! i#} = mset b"
    using assms by (rule mset_remove_index)
  then have "mset w + (mset (take i b @ drop (Suc i) b) + {#b ! i#}) = mset w + mset b"
    by (simp only:)
  then show "mset (fst (blackToWhite i (w, b))) + mset (snd (blackToWhite i (w, b))) = mset w + mset b"
    by (simp add: blackToWhite_def)
qed

lemma whiteToBlack_props:
  assumes "i < length w"
  shows "Suc (length (fst (whiteToBlack i (w, b)))) = length w"
    and "length (snd (whiteToBlack i (w, b))) = Suc (length b)"
    and "mset (fst (whiteToBlack i (w, b))) + mset (snd (whiteToBlack i (w, b))) = mset w + mset b"
proof -
  show "Suc (length (fst (whiteToBlack i (w, b)))) = length w"
    using assms by (simp add: whiteToBlack_def)
  show "length (snd (whiteToBlack i (w, b))) = Suc (length b)"
    by (simp add: whiteToBlack_def)
  have "mset (take i w @ drop (Suc i) w) + {#w ! i#} = mset w"
    using assms by (rule mset_remove_index)
  then have "(mset (take i w @ drop (Suc i) w) + {#w ! i#}) + mset b = mset w + mset b"
    by (simp only:)
  then show "mset (fst (whiteToBlack i (w, b))) + mset (snd (whiteToBlack i (w, b))) = mset w + mset b"
    by (simp add: whiteToBlack_def)
qed

lemma fillWhite_stop:
  "\<not> (length w < p1 \<and> length b > p2) \<Longrightarrow> fillWhite p1 p2 (w, b) = (w, b)"
  by (subst fillWhite.simps) (auto simp del: fillWhite.simps)

lemma fillWhite_step:
  "length w < p1 \<and> length b > p2 \<Longrightarrow>
   fillWhite p1 p2 (w, b) = fillWhite p1 p2 (blackToWhite (lowestSkillIndex b) (w, b))"
  by (subst fillWhite.simps) (auto simp del: fillWhite.simps)

lemma fillWhite_props:
  "length (fst (fillWhite p1 p2 (w, b))) = length w + min (p1 - length w) (length b - p2) \<and>
   length (snd (fillWhite p1 p2 (w, b))) = length b - min (p1 - length w) (length b - p2) \<and>
   mset (fst (fillWhite p1 p2 (w, b))) + mset (snd (fillWhite p1 p2 (w, b))) = mset w + mset b"
proof (induction p1 p2 "(w, b)" arbitrary: w b rule: fillWhite.induct)
  case (1 p1 p2 w b)
  show ?case
  proof (cases "length w < p1 \<and> length b > p2")
    case True
    then have "b \<noteq> []" by auto
    then have i: "lowestSkillIndex b < length b" by (rule lowestSkillIndex_less)
    obtain w' b' where st: "blackToWhite (lowestSkillIndex b) (w, b) = (w', b')"
      by (cases "blackToWhite (lowestSkillIndex b) (w, b)")
    have ih: "length (fst (fillWhite p1 p2 (w', b'))) = length w' + min (p1 - length w') (length b' - p2) \<and>
      length (snd (fillWhite p1 p2 (w', b'))) = length b' - min (p1 - length w') (length b' - p2) \<and>
      mset (fst (fillWhite p1 p2 (w', b'))) + mset (snd (fillWhite p1 p2 (w', b'))) = mset w' + mset b'"
      using True st by (intro "1.hyps") simp_all
    have eq: "fillWhite p1 p2 (w, b) = fillWhite p1 p2 (w', b')"
      using fillWhite_step [OF True] st by (simp only:)
    from blackToWhite_props [OF i, of w] st
    have l: "length w' = Suc (length w)" "Suc (length b') = length b"
      and m: "mset w' + mset b' = mset w + mset b"
      by simp_all
    have a: "length w' + min (p1 - length w') (length b' - p2)
             = length w + min (p1 - length w) (length b - p2)"
      using l True by linarith
    have b: "length b' - min (p1 - length w') (length b' - p2)
             = length b - min (p1 - length w) (length b - p2)"
      using l True by linarith
    show ?thesis unfolding eq using ih a b m by (simp only:)
  next
    case False
    then have stop: "fillWhite p1 p2 (w, b) = (w, b)" by (rule fillWhite_stop)
    show ?thesis unfolding stop using False by (auto simp: min_def)
  qed
qed


lemma fillBlack_stop:
  "\<not> (length b < p2 \<and> length w > p1) \<Longrightarrow> fillBlack p1 p2 (w, b) = (w, b)"
  by (subst fillBlack.simps) (auto simp del: fillBlack.simps)

lemma fillBlack_step:
  "length b < p2 \<and> length w > p1 \<Longrightarrow>
   fillBlack p1 p2 (w, b) = fillBlack p1 p2 (whiteToBlack (lowestSkillIndex w) (w, b))"
  by (subst fillBlack.simps) (auto simp del: fillBlack.simps)

lemma fillBlack_props:
  "length (fst (fillBlack p1 p2 (w, b))) = length w - min (p2 - length b) (length w - p1) \<and>
   length (snd (fillBlack p1 p2 (w, b))) = length b + min (p2 - length b) (length w - p1) \<and>
   mset (fst (fillBlack p1 p2 (w, b))) + mset (snd (fillBlack p1 p2 (w, b))) = mset w + mset b"
proof (induction p1 p2 "(w, b)" arbitrary: w b rule: fillBlack.induct)
  case (1 p1 p2 w b)
  show ?case
  proof (cases "length b < p2 \<and> length w > p1")
    case True
    then have "w \<noteq> []" by auto
    then have i: "lowestSkillIndex w < length w" by (rule lowestSkillIndex_less)
    obtain w' b' where st: "whiteToBlack (lowestSkillIndex w) (w, b) = (w', b')"
      by (cases "whiteToBlack (lowestSkillIndex w) (w, b)")
    have ih: "length (fst (fillBlack p1 p2 (w', b'))) = length w' - min (p2 - length b') (length w' - p1) \<and>
      length (snd (fillBlack p1 p2 (w', b'))) = length b' + min (p2 - length b') (length w' - p1) \<and>
      mset (fst (fillBlack p1 p2 (w', b'))) + mset (snd (fillBlack p1 p2 (w', b'))) = mset w' + mset b'"
      using True st by (intro "1.hyps") simp_all
    have eq: "fillBlack p1 p2 (w, b) = fillBlack p1 p2 (w', b')"
      using fillBlack_step [OF True] st by (simp only:)
    from whiteToBlack_props [OF i, of b] st
    have l: "Suc (length w') = length w" "length b' = Suc (length b)"
      and m: "mset w' + mset b' = mset w + mset b"
      by simp_all
    have a: "length w' - min (p2 - length b') (length w' - p1) = length w - min (p2 - length b) (length w - p1)"
      using l True by linarith
    have b: "length b' + min (p2 - length b') (length w' - p1) = length b + min (p2 - length b) (length w - p1)"
      using l True by linarith
    show ?thesis unfolding eq using ih a b m by (simp only:)
  next
    case False
    then have stop: "fillBlack p1 p2 (w, b) = (w, b)" by (rule fillBlack_stop)
    show ?thesis unfolding stop using False by (auto simp: min_def)
  qed
qed

lemma trimWhite_stop:
  "\<not> (length w > p1) \<Longrightarrow> trimWhite p1 (w, b) = (w, b)"
  by (subst trimWhite.simps) (auto simp del: trimWhite.simps)

lemma trimWhite_step:
  "length w > p1 \<Longrightarrow>
   trimWhite p1 (w, b) = trimWhite p1 (whiteToBlack (highestSkillIndex w) (w, b))"
  by (subst trimWhite.simps) (auto simp del: trimWhite.simps)

lemma trimWhite_props:
  "length (fst (trimWhite p1 (w, b))) = length w - (length w - p1) \<and>
   length (snd (trimWhite p1 (w, b))) = length b + (length w - p1) \<and>
   mset (fst (trimWhite p1 (w, b))) + mset (snd (trimWhite p1 (w, b))) = mset w + mset b"
proof (induction p1 "(w, b)" arbitrary: w b rule: trimWhite.induct)
  case (1 p1 w b)
  show ?case
  proof (cases "length w > p1")
    case True
    then have "w \<noteq> []" by auto
    then have i: "highestSkillIndex w < length w" by (rule highestSkillIndex_less)
    obtain w' b' where st: "whiteToBlack (highestSkillIndex w) (w, b) = (w', b')"
      by (cases "whiteToBlack (highestSkillIndex w) (w, b)")
    have ih: "length (fst (trimWhite p1 (w', b'))) = length w' - (length w' - p1) \<and>
      length (snd (trimWhite p1 (w', b'))) = length b' + (length w' - p1) \<and>
      mset (fst (trimWhite p1 (w', b'))) + mset (snd (trimWhite p1 (w', b'))) = mset w' + mset b'"
      using True st by (intro "1.hyps") simp_all
    have eq: "trimWhite p1 (w, b) = trimWhite p1 (w', b')"
      using trimWhite_step [OF True] st by (simp only:)
    from whiteToBlack_props [OF i, of b] st
    have l: "Suc (length w') = length w" "length b' = Suc (length b)"
      and m: "mset w' + mset b' = mset w + mset b"
      by simp_all
    have a: "length w' - (length w' - p1) = length w - (length w - p1)"
      using l True by linarith
    have b: "length b' + (length w' - p1) = length b + (length w - p1)"
      using l True by linarith
    show ?thesis unfolding eq using ih a b m by (simp only:)
  next
    case False
    then have stop: "trimWhite p1 (w, b) = (w, b)" by (rule trimWhite_stop)
    show ?thesis unfolding stop using False by (auto simp: min_def)
  qed
qed

lemma trimBlack_stop:
  "\<not> (length b > p2) \<Longrightarrow> trimBlack p2 (w, b) = (w, b)"
  by (subst trimBlack.simps) (auto simp del: trimBlack.simps)

lemma trimBlack_step:
  "length b > p2 \<Longrightarrow>
   trimBlack p2 (w, b) = trimBlack p2 (blackToWhite (highestSkillIndex b) (w, b))"
  by (subst trimBlack.simps) (auto simp del: trimBlack.simps)

lemma trimBlack_props:
  "length (fst (trimBlack p2 (w, b))) = length w + (length b - p2) \<and>
   length (snd (trimBlack p2 (w, b))) = length b - (length b - p2) \<and>
   mset (fst (trimBlack p2 (w, b))) + mset (snd (trimBlack p2 (w, b))) = mset w + mset b"
proof (induction p2 "(w, b)" arbitrary: w b rule: trimBlack.induct)
  case (1 p2 w b)
  show ?case
  proof (cases "length b > p2")
    case True
    then have "b \<noteq> []" by auto
    then have i: "highestSkillIndex b < length b" by (rule highestSkillIndex_less)
    obtain w' b' where st: "blackToWhite (highestSkillIndex b) (w, b) = (w', b')"
      by (cases "blackToWhite (highestSkillIndex b) (w, b)")
    have ih: "length (fst (trimBlack p2 (w', b'))) = length w' + (length b' - p2) \<and>
      length (snd (trimBlack p2 (w', b'))) = length b' - (length b' - p2) \<and>
      mset (fst (trimBlack p2 (w', b'))) + mset (snd (trimBlack p2 (w', b'))) = mset w' + mset b'"
      using True st by (intro "1.hyps") simp_all
    have eq: "trimBlack p2 (w, b) = trimBlack p2 (w', b')"
      using trimBlack_step [OF True] st by (simp only:)
    from blackToWhite_props [OF i, of w] st
    have l: "length w' = Suc (length w)" "Suc (length b') = length b"
      and m: "mset w' + mset b' = mset w + mset b"
      by simp_all
    have a: "length w' + (length b' - p2) = length w + (length b - p2)"
      using l True by linarith
    have b: "length b' - (length b' - p2) = length b - (length b - p2)"
      using l True by linarith
    show ?thesis unfolding eq using ih a b m by (simp only:)
  next
    case False
    then have stop: "trimBlack p2 (w, b) = (w, b)" by (rule trimBlack_stop)
    show ?thesis unfolding stop using False by (auto simp: min_def)
  qed
qed

subsection \<open>What the allocator returns holds every going player once\<close>

lemma first_two_drop:
  assumes "2 \<le> length xs"
  shows "xs = xs ! 0 # xs ! 1 # drop 2 xs"
proof (cases xs)
  case Nil
  with assms show ?thesis by simp
next
  case (Cons a ys)
  show ?thesis
  proof (cases ys)
    case Nil
    with Cons assms show ?thesis by simp
  next
    case (Cons b zs)
    with \<open>xs = a # ys\<close> show ?thesis by simp
  qed
qed

lemma mset_first_two:
  "mset (a # b # r) = {#a#} + {#b#} + mset r"
  by simp

lemma firstPhase_mset:
  assumes "2 \<le> length ps"
  shows "mset (fst (firstPhase ps)) + mset (snd (firstPhase ps)) =
         mset (take (playersPerTeam1 (length ps) + playersPerTeam2 (length ps))
                 (sortByOverallDesc ps))"
proof -
  let ?act = "take (playersPerTeam1 (length ps) + playersPerTeam2 (length ps)) (sortByOverallDesc ps)"
  have "2 \<le> length ?act"
    using active_length [OF assms] active_ge2 [OF assms] by simp
  then have "?act = ?act ! 0 # ?act ! 1 # drop 2 ?act" by (rule first_two_drop)
  then have "mset ?act = mset (?act ! 0 # ?act ! 1 # drop 2 ?act)" by (rule arg_cong)
  then have a: "mset ?act = {#?act ! 0#} + {#?act ! 1#} + mset (drop 2 ?act)"
    by (simp only: mset_first_two)
  have b: "mset (fst (firstPhase ps)) + mset (snd (firstPhase ps)) =
    {#?act ! 0#} + {#?act ! 1#} + mset (drop 2 ?act)"
    by (simp add: firstPhase_def Let_def assignRemaining_mset sortByOverallDesc_def)
  show ?thesis unfolding b a [symmetric] ..
qed

lemma allocateGoing_mset:
  assumes "2 \<le> length ps"
  shows "mset (fst (firstPhase ps) @ snd (firstPhase ps) @
               drop (playersPerTeam1 (length ps) + playersPerTeam2 (length ps))
                 (sortByOverallDesc ps)) = mset ps"
proof -
  let ?k = "playersPerTeam1 (length ps) + playersPerTeam2 (length ps)"
  let ?s = "sortByOverallDesc ps"
  have "mset (fst (firstPhase ps) @ snd (firstPhase ps) @ drop ?k ?s)
        = (mset (fst (firstPhase ps)) + mset (snd (firstPhase ps))) + mset (drop ?k ?s)"
    by (simp only: mset_append add.assoc)
  also have "\<dots> = mset (take ?k ?s) + mset (drop ?k ?s)"
    by (simp only: firstPhase_mset [OF assms])
  also have "\<dots> = mset (take ?k ?s @ drop ?k ?s)" by (simp only: mset_append)
  also have "\<dots> = mset ?s" by (simp only: append_take_drop_id)
  also have "\<dots> = mset ps" by (simp add: sortByOverallDesc_def)
  finally show ?thesis .
qed

subsection \<open>The size table\<close>

lemma half_rest: "n - (n + 1) div 2 = n div (2::nat)"
  by presburger

lemma teamSizes_table: "teamSizes n = sizePlannerTable n"
proof -
  consider "n \<le> 10" | "10 < n \<and> n \<le> 12" | "n = 13" | "n = 14" | "14 < n \<and> n \<le> 17"
    | "n = 18" | "18 < n" by linarith
  then show ?thesis
  proof cases
    case 1
    then show ?thesis by (simp add: teamSizes_def sizePlannerTable_def Let_def half_rest)
  next
    case 2
    then show ?thesis by (simp add: teamSizes_def sizePlannerTable_def Let_def half_rest)
  next
    case 3
    then show ?thesis by (simp add: teamSizes_def sizePlannerTable_def Let_def)
  next
    case 4
    then show ?thesis by (simp add: teamSizes_def sizePlannerTable_def Let_def)
  next
    case 5
    then have "n = 15 \<or> n = 16 \<or> n = 17" by linarith
    then show ?thesis by (auto simp: teamSizes_def sizePlannerTable_def Let_def)
  next
    case 6
    then show ?thesis by (simp add: teamSizes_def sizePlannerTable_def Let_def)
  next
    case 7
    then have "9 \<le> n div 2" "9 \<le> (n + 1) div 2" by presburger+
    with 7 show ?thesis by (simp add: teamSizes_def sizePlannerTable_def Let_def min_def)
  qed
qed

lemma teamSizes_split:
  "teamSizes n = (playersPerTeam1 n, playersPerTeam2 n, benchCount n)"
  by (simp add: playersPerTeam1_def playersPerTeam2_def benchCount_def)

lemma teamSizes_diff:
  "\<bar>int (playersPerTeam1 n) - int (playersPerTeam2 n)\<bar> \<le> 1"
proof -
  have "\<bar>int (fst (sizePlannerTable n)) - int (fst (snd (sizePlannerTable n)))\<bar> \<le> 1"
    unfolding sizePlannerTable_def by (simp add: min_def; presburger)
  then show ?thesis
    by (simp add: playersPerTeam1_def playersPerTeam2_def teamSizes_table)
qed

lemma benchCount_pos: "0 < benchCount n \<Longrightarrow> 13 \<le> n"
  unfolding benchCount_def teamSizes_def Let_def
  by (simp split: if_splits)

lemma bench_length:
  "length (drop (playersPerTeam1 (length ps) + playersPerTeam2 (length ps))
             (sortByOverallDesc ps)) = benchCount (length ps)"
  using teamSizes_sum [of "length ps"] by (simp add: sortByOverallDesc_def)

subsection \<open>The sort and the bench\<close>

lemma sortByOverallDesc_sorted:
  "sorted (map (\<lambda>p. - overallSkill p) (sortByOverallDesc ps))"
  by (simp add: sortByOverallDesc_def)

lemma sortByOverallDesc_stable:
  "filter (\<lambda>p. overallSkill p = k) (sortByOverallDesc ps) = filter (\<lambda>p. overallSkill p = k) ps"
proof -
  have "filter (\<lambda>p. - overallSkill p = - k) (sort_key (\<lambda>p. - overallSkill p) ps)
        = filter (\<lambda>p. - overallSkill p = - k) ps"
    by (rule sort_key_stable)
  then show ?thesis by (simp add: sortByOverallDesc_def)
qed

lemma take_above_drop:
  assumes "a \<in> set (take k (sortByOverallDesc ps))" and "b \<in> set (drop k (sortByOverallDesc ps))"
  shows "overallSkill b \<le> overallSkill a"
proof -
  let ?s = "sortByOverallDesc ps" and ?f = "\<lambda>p. - overallSkill p"
  have "sorted (map ?f (take k ?s @ drop k ?s))"
    using sortByOverallDesc_sorted [of ps] by (simp only: append_take_drop_id)
  then have "\<forall>x\<in>set (map ?f (take k ?s)). \<forall>y\<in>set (map ?f (drop k ?s)). x \<le> y"
    by (simp only: map_append sorted_append) simp
  with assms have "?f a \<le> ?f b" by simp
  then show ?thesis by simp
qed

subsection \<open>The second phase from any pair of teams\<close>

lemma fillWhite_total:
  "length (fst (fillWhite p1 p2 t)) + length (snd (fillWhite p1 p2 t)) = length (fst t) + length (snd t)"
  "mset (fst (fillWhite p1 p2 t)) + mset (snd (fillWhite p1 p2 t)) = mset (fst t) + mset (snd t)"
  using fillWhite_props [of p1 p2 "fst t" "snd t"] by (simp_all add: min_def)

lemma fillBlack_total:
  "length (fst (fillBlack p1 p2 t)) + length (snd (fillBlack p1 p2 t)) = length (fst t) + length (snd t)"
  "mset (fst (fillBlack p1 p2 t)) + mset (snd (fillBlack p1 p2 t)) = mset (fst t) + mset (snd t)"
  using fillBlack_props [of p1 p2 "fst t" "snd t"] by (simp_all add: min_def)

lemma trimWhite_total:
  "length (fst (trimWhite p1 t)) + length (snd (trimWhite p1 t)) = length (fst t) + length (snd t)"
  "mset (fst (trimWhite p1 t)) + mset (snd (trimWhite p1 t)) = mset (fst t) + mset (snd t)"
  using trimWhite_props [of p1 "fst t" "snd t"] by simp_all

lemma trimBlack_total:
  "length (fst (trimBlack p2 t)) + length (snd (trimBlack p2 t)) = length (fst t) + length (snd t)"
  "mset (fst (trimBlack p2 t)) + mset (snd (trimBlack p2 t)) = mset (fst t) + mset (snd t)"
  using trimBlack_props [of p2 "fst t" "snd t"] by simp_all

lemma adjustSizes_total:
  "length (fst (adjustSizes p1 p2 t)) + length (snd (adjustSizes p1 p2 t))
     = length (fst t) + length (snd t)"
  "mset (fst (adjustSizes p1 p2 t)) + mset (snd (adjustSizes p1 p2 t))
     = mset (fst t) + mset (snd t)"
  by (simp_all add: adjustSizes_def Let_def fillWhite_total fillBlack_total trimWhite_total
        trimBlack_total)

lemma moves_le:
  "fillWhiteMoves p1 p2 t \<le> length (snd t)"
  "fillBlackMoves p1 p2 t \<le> length (fst t)"
  "trimWhiteMoves p1 t \<le> length (fst t)"
  "trimBlackMoves p2 t \<le> length (snd t)"
proof -
  show "fillWhiteMoves p1 p2 t \<le> length (snd t)"
    using fillWhiteMoves_eq [of p1 p2 "fst t" "snd t"] by (auto simp: min_def)
  show "fillBlackMoves p1 p2 t \<le> length (fst t)"
    using fillBlackMoves_eq [of p1 p2 "fst t" "snd t"] by (auto simp: min_def)
  show "trimWhiteMoves p1 t \<le> length (fst t)"
    using trimWhiteMoves_eq [of p1 "fst t" "snd t"] by simp
  show "trimBlackMoves p2 t \<le> length (snd t)"
    using trimBlackMoves_eq [of p2 "fst t" "snd t"] by simp
qed

lemma adjustSizesMoves_bound:
  "adjustSizesMoves p1 p2 t \<le> 4 * (length (fst t) + length (snd t))"
proof -
  let ?T = "length (fst t) + length (snd t)"
  define t1 where "t1 = (if length (fst t) < p1 \<and> length (snd t) > p2
                         then fillWhite p1 p2 t else t)"
  define t2 where "t2 = (if length (snd t1) < p2 \<and> length (fst t1) > p1
                         then fillBlack p1 p2 t1 else t1)"
  define t3 where "t3 = (if length (fst t2) > p1 then trimWhite p1 t2 else t2)"
  have T1: "length (fst t1) + length (snd t1) = ?T"
    by (simp add: t1_def fillWhite_total)
  have T2: "length (fst t2) + length (snd t2) = ?T"
    using T1 by (simp add: t2_def fillBlack_total)
  have T3: "length (fst t3) + length (snd t3) = ?T"
    using T2 by (simp add: t3_def trimWhite_total)
  define m1 where "m1 = (if length (fst t) < p1 \<and> length (snd t) > p2
                         then fillWhiteMoves p1 p2 t else 0)"
  define m2 where "m2 = (if length (snd t1) < p2 \<and> length (fst t1) > p1
                         then fillBlackMoves p1 p2 t1 else 0)"
  define m3 where "m3 = (if length (fst t2) > p1 then trimWhiteMoves p1 t2 else 0)"
  define m4 where "m4 = (if length (snd t3) > p2 then trimBlackMoves p2 t3 else 0)"
  have m1: "m1 \<le> ?T"
    using moves_le(1) [of p1 p2 t] by (simp add: m1_def)
  have m2: "m2 \<le> ?T"
    using moves_le(2) [of p1 p2 t1] T1 by (simp add: m2_def)
  have m3: "m3 \<le> ?T"
    using moves_le(3) [of p1 t2] T2 by (simp add: m3_def)
  have m4: "m4 \<le> ?T"
    using moves_le(4) [of p2 t3] T3 by (simp add: m4_def)
  have "adjustSizesMoves p1 p2 t = m1 + m2 + m3 + m4"
    unfolding adjustSizesMoves_def Let_def t1_def t2_def t3_def m1_def m2_def m3_def m4_def ..
  moreover have "m1 + m2 + m3 + m4 \<le> ?T + ?T + ?T + ?T"
    using m1 m2 m3 m4 by (intro add_mono)
  ultimately show ?thesis by simp
qed

lemma adjustSizes_sizes:
  assumes "length (fst t) + length (snd t) = p1 + p2"
  shows "length (fst (adjustSizes p1 p2 t)) = p1 \<and> length (snd (adjustSizes p1 p2 t)) = p2"
proof -
  define t1 where "t1 = (if length (fst t) < p1 \<and> length (snd t) > p2
                         then fillWhite p1 p2 t else t)"
  define t2 where "t2 = (if length (snd t1) < p2 \<and> length (fst t1) > p1
                         then fillBlack p1 p2 t1 else t1)"
  define t3 where "t3 = (if length (fst t2) > p1 then trimWhite p1 t2 else t2)"
  define t4 where "t4 = (if length (snd t3) > p2 then trimBlack p2 t3 else t3)"
  have T1: "length (fst t1) + length (snd t1) = p1 + p2"
    using assms by (simp add: t1_def fillWhite_total)
  have T2: "length (fst t2) + length (snd t2) = p1 + p2"
    using T1 by (simp add: t2_def fillBlack_total)
  have T3: "length (fst t3) + length (snd t3) = p1 + p2"
    using T2 by (simp add: t3_def trimWhite_total)
  have T4: "length (fst t4) + length (snd t4) = p1 + p2"
    using T3 by (simp add: t4_def trimBlack_total)
  have W3: "length (fst t3) \<le> p1"
    using trimWhite_props [of p1 "fst t2" "snd t2"] by (simp add: t3_def)
  have B4: "length (snd t4) \<le> p2"
    using trimBlack_props [of p2 "fst t3" "snd t3"] by (simp add: t4_def)
  have W4: "length (fst t4) \<le> p1"
    using trimBlack_props [of p2 "fst t3" "snd t3"] W3 T3 by (simp add: t4_def)
  have "adjustSizes p1 p2 t = t4"
    unfolding adjustSizes_def Let_def t1_def t2_def t3_def t4_def ..
  then show ?thesis using W4 B4 T4 by simp
qed

subsection \<open>The assignment loop and the rule of the specification\<close>







subsection \<open>The going players of a game\<close>

lemma going_length:
  assumes "distinct playerIds" and "set playerIds \<subseteq> player_id ` set registeredPlayers"
  shows "length playerIds
         \<le> length (filter (\<lambda>player. player_id player \<in> set playerIds) registeredPlayers)"
proof -
  let ?going = "filter (\<lambda>player. player_id player \<in> set playerIds) registeredPlayers"
  have "set playerIds \<subseteq> player_id ` set ?going" using assms(2) by auto
  then have "card (set playerIds) \<le> card (player_id ` set ?going)"
    by (intro card_mono) simp_all
  also have "\<dots> \<le> card (set ?going)" by (intro card_image_le) simp
  also have "\<dots> \<le> length ?going" by (rule card_length)
  finally show ?thesis using assms(1) by (simp add: distinct_card)
qed

section \<open>The claims\<close>

text \<open>
  The theorems C1, C2, C4 to C7 and C9 are about \<open>allocateGoing\<close>, the allocator
  proper: the body of \<open>generateTeams\<close> after its attendance check and its database
  reads. The attendance check is the subject of C3. None of these theorems but C4 depends
  on how the comparison of the two adjusted strengths comes out.
\<close>

text \<open>
  C1 (partition completeness). For every list of at least two distinct going players,
  of any length, the allocator returns an assignment, and the white team, the black team
  and the bench together hold exactly the going players: their union is the input set,
  no player occurs twice in the three lists together (so they are pairwise disjoint), and
  as multisets the three lists add up to the input.
\<close>

theorem partition_completeness:
  assumes "2 \<le> length ps" and "distinct ps"
  shows "\<exists>ta. allocateGoing ps = Inr ta
           \<and> set (whiteTeam ta) \<union> set (blackTeam ta) \<union> set (benchPlayers ta) = set ps
           \<and> distinct (whiteTeam ta @ blackTeam ta @ benchPlayers ta)
           \<and> mset (whiteTeam ta @ blackTeam ta @ benchPlayers ta) = mset ps"
proof -
  let ?w = "fst (firstPhase ps)" and ?b = "snd (firstPhase ps)"
  let ?bench = "drop (playersPerTeam1 (length ps) + playersPerTeam2 (length ps))
                  (sortByOverallDesc ps)"
  let ?ta = "\<lparr>whiteTeam = ?w, blackTeam = ?b, benchPlayers = ?bench\<rparr>"
  have r: "allocateGoing ps = Inr ?ta" using assms(1) by (rule allocateGoing_firstPhase)
  have m: "mset (?w @ ?b @ ?bench) = mset ps" using assms(1) by (rule allocateGoing_mset)
  from mset_eq_imp_distinct_iff [OF m] assms(2)
  have d: "distinct (?w @ ?b @ ?bench)" by (simp only:)
  from m have "set (?w @ ?b @ ?bench) = set ps" by (rule mset_eq_setD)
  then have s: "set ?w \<union> set ?b \<union> set ?bench = set ps"
    by (simp only: set_append Un_assoc)
  show ?thesis
  proof (intro exI conjI)
    show "allocateGoing ps = Inr ?ta" by (rule r)
    show "set (whiteTeam ?ta) \<union> set (blackTeam ?ta) \<union> set (benchPlayers ?ta) = set ps"
      using s by simp
    show "distinct (whiteTeam ?ta @ blackTeam ?ta @ benchPlayers ?ta)"
      using d by simp
    show "mset (whiteTeam ?ta @ blackTeam ?ta @ benchPlayers ?ta) = mset ps"
      using m by simp
  qed
qed

theorem partition_completeness_witness:
  "2 \<le> length [uniformPlayer 3 1, uniformPlayer 1 10, uniformPlayer 2 7]
   \<and> distinct [uniformPlayer 3 1, uniformPlayer 1 10, uniformPlayer 2 7]
   \<and> (\<exists>ta. allocateGoing [uniformPlayer 3 1, uniformPlayer 1 10, uniformPlayer 2 7] = Inr ta
         \<and> set (whiteTeam ta) \<union> set (blackTeam ta) \<union> set (benchPlayers ta)
             = set [uniformPlayer 3 1, uniformPlayer 1 10, uniformPlayer 2 7]
         \<and> distinct (whiteTeam ta @ blackTeam ta @ benchPlayers ta)
         \<and> mset (whiteTeam ta @ blackTeam ta @ benchPlayers ta)
             = mset [uniformPlayer 3 1, uniformPlayer 1 10, uniformPlayer 2 7])"
  using partition_completeness [of "[uniformPlayer 3 1, uniformPlayer 1 10, uniformPlayer 2 7]"]
  by (simp add: uniformPlayer_def)

text \<open>
  C2 (size conformance). The sizes \<open>generateTeams\<close> computes are the Size Planner
  table of the specification for every number of players, they add up to that number,
  and for at least two going players the lengths of the white team, the black team and
  the bench of the returned assignment are the table's entry. The last conjunct lists
  the table at the boundary values 10, 11, 12, 13, 14, 15, 17 and 18.
\<close>

theorem size_conformance:
  assumes "2 \<le> length ps"
  shows "teamSizes (length ps) = sizePlannerTable (length ps)
       \<and> playersPerTeam1 (length ps) + playersPerTeam2 (length ps) + benchCount (length ps)
           = length ps
       \<and> (\<exists>ta. allocateGoing ps = Inr ta
             \<and> (length (whiteTeam ta), length (blackTeam ta), length (benchPlayers ta))
                 = sizePlannerTable (length ps))
       \<and> map sizePlannerTable [10, 11, 12, 13, 14, 15, 17, 18]
           = [(5, 5, 0), (6, 5, 0), (6, 6, 0), (6, 6, 1), (7, 7, 0), (7, 8, 0), (8, 9, 0), (9, 9, 0)]"
proof -
  let ?n = "length ps"
  let ?ta = "\<lparr>whiteTeam = fst (firstPhase ps), blackTeam = snd (firstPhase ps),
              benchPlayers = drop (playersPerTeam1 ?n + playersPerTeam2 ?n) (sortByOverallDesc ps)\<rparr>"
  have r: "allocateGoing ps = Inr ?ta" using assms by (rule allocateGoing_firstPhase)
  have "(length (whiteTeam ?ta), length (blackTeam ?ta), length (benchPlayers ?ta))
        = (playersPerTeam1 ?n, playersPerTeam2 ?n, benchCount ?n)"
    using firstPhase_lengths [OF assms] bench_length [of ps] by simp
  also have "\<dots> = sizePlannerTable ?n"
    by (simp only: teamSizes_split [symmetric] teamSizes_table)
  finally have l: "(length (whiteTeam ?ta), length (blackTeam ?ta), length (benchPlayers ?ta))
        = sizePlannerTable ?n" .
  have b: "map sizePlannerTable [10, 11, 12, 13, 14, 15, 17, 18]
           = [(5, 5, 0), (6, 5, 0), (6, 6, 0), (6, 6, 1), (7, 7, 0), (7, 8, 0), (8, 9, 0), (9, 9, 0)]"
    by (simp add: sizePlannerTable_def)
  show ?thesis
  proof (intro conjI exI)
    show "teamSizes ?n = sizePlannerTable ?n" by (rule teamSizes_table)
    show "playersPerTeam1 ?n + playersPerTeam2 ?n + benchCount ?n = ?n" by (rule teamSizes_sum)
    show "allocateGoing ps = Inr ?ta" by (rule r)
    show "(length (whiteTeam ?ta), length (blackTeam ?ta), length (benchPlayers ?ta))
        = sizePlannerTable ?n" by (rule l)
    show "map sizePlannerTable [10, 11, 12, 13, 14, 15, 17, 18]
           = [(5, 5, 0), (6, 5, 0), (6, 6, 0), (6, 6, 1), (7, 7, 0), (7, 8, 0), (8, 9, 0), (9, 9, 0)]"
      by (rule b)
  qed
qed

theorem size_conformance_witness:
  "2 \<le> length scenario2
   \<and> sizePlannerTable (length scenario2) = (6, 6, 1)
   \<and> (teamSizes (length scenario2) = sizePlannerTable (length scenario2)
       \<and> playersPerTeam1 (length scenario2) + playersPerTeam2 (length scenario2)
             + benchCount (length scenario2) = length scenario2
       \<and> (\<exists>ta. allocateGoing scenario2 = Inr ta
             \<and> (length (whiteTeam ta), length (blackTeam ta), length (benchPlayers ta))
                 = sizePlannerTable (length scenario2))
       \<and> map sizePlannerTable [10, 11, 12, 13, 14, 15, 17, 18]
           = [(5, 5, 0), (6, 5, 0), (6, 6, 0), (6, 6, 1), (7, 7, 0), (7, 8, 0), (8, 9, 0), (9, 9, 0)])"
proof -
  have h: "2 \<le> length scenario2" by (simp add: scenario2_def)
  have c: "sizePlannerTable (length scenario2) = (6, 6, 1)"
    by (simp add: scenario2_def sizePlannerTable_def)
  show ?thesis by (rule conjI [OF h conjI [OF c size_conformance [OF h]]])
qed

text \<open>
  C3 (failure semantics), as amended. With fewer than 8 going registrations, so also
  with none or one, \<open>generateTeams\<close> throws the \<open>Error\<close> "At least 8 players need to
  be registered to generate teams" and returns no assignment. With 8 or more going
  registrations of distinct registered players it returns an assignment.
\<close>

theorem attendance_check:
  "(length playerIds < 8 \<longrightarrow>
      generateTeams playerIds registeredPlayers
        = Inl (Error ''At least 8 players need to be registered to generate teams''))
   \<and> (8 \<le> length playerIds \<and> distinct playerIds
        \<and> set playerIds \<subseteq> player_id ` set registeredPlayers \<longrightarrow>
      (\<exists>ta. generateTeams playerIds registeredPlayers = Inr ta))"
proof (intro conjI impI)
  assume "length playerIds < 8"
  then show "generateTeams playerIds registeredPlayers
        = Inl (Error ''At least 8 players need to be registered to generate teams'')"
    by (simp add: generateTeams_def)
next
  let ?going = "filter (\<lambda>player. player_id player \<in> set playerIds) registeredPlayers"
  assume a: "8 \<le> length playerIds \<and> distinct playerIds
        \<and> set playerIds \<subseteq> player_id ` set registeredPlayers"
  then have "length playerIds \<le> length ?going" by (intro going_length) simp_all
  with a have "2 \<le> length ?going" by linarith
  then have "\<exists>ta. allocateGoing ?going = Inr ta"
    using allocateGoing_firstPhase [of ?going] by blast
  with a show "\<exists>ta. generateTeams playerIds registeredPlayers = Inr ta"
    by (simp add: generateTeams_def)
qed

theorem attendance_check_witness:
  "length [1, 2 :: int] < 8
   \<and> generateTeams [1, 2] [uniformPlayer 1 10, uniformPlayer 2 1]
       = Inl (Error ''At least 8 players need to be registered to generate teams'')
   \<and> 8 \<le> length [1, 2, 3, 4, 5, 6, 7, 8 :: int]
   \<and> distinct [1, 2, 3, 4, 5, 6, 7, 8 :: int]
   \<and> set [1, 2, 3, 4, 5, 6, 7, 8] \<subseteq> player_id ` set (take 8 scenario2)
   \<and> (\<exists>ta. generateTeams [1, 2, 3, 4, 5, 6, 7, 8] (take 8 scenario2) = Inr ta)"
proof -
  have a: "length [1, 2 :: int] < 8" by simp
  have b: "8 \<le> length [1, 2, 3, 4, 5, 6, 7, 8 :: int]" by simp
  have c: "distinct [1, 2, 3, 4, 5, 6, 7, 8 :: int]" by simp
  have d: "set [1, 2, 3, 4, 5, 6, 7, 8] \<subseteq> player_id ` set (take 8 scenario2)"
    by (simp add: scenario2_def uniformPlayer_def)
  from attendance_check [of "[1, 2]" "[uniformPlayer 1 10, uniformPlayer 2 1]"] a
  have e: "generateTeams [1, 2] [uniformPlayer 1 10, uniformPlayer 2 1]
       = Inl (Error ''At least 8 players need to be registered to generate teams'')"
    by blast
  from attendance_check [of "[1, 2, 3, 4, 5, 6, 7, 8]" "take 8 scenario2"] b c d
  have f: "\<exists>ta. generateTeams [1, 2, 3, 4, 5, 6, 7, 8] (take 8 scenario2) = Inr ta"
    by blast
  from a e b c d f show ?thesis by (intro conjI)
qed

text \<open>
  C3, the claim as stated fails: going registrations of two players, and of seven, make
  \<open>generateTeams\<close> throw, although the claim says that two or more players produce no
  error.
\<close>

theorem insufficient_players_counterexample:
  "generateTeams [1, 2] [uniformPlayer 1 10, uniformPlayer 2 1]
     = Inl (Error ''At least 8 players need to be registered to generate teams'')
   \<and> generateTeams [1, 2, 3, 4, 5, 6, 7]
        (map (\<lambda>i. uniformPlayer i 5) [1, 2, 3, 4, 5, 6, 7])
     = Inl (Error ''At least 8 players need to be registered to generate teams'')"
  by (simp add: generateTeams_def)



text \<open>
  C5 (bench selection). When the size plan has a bench, the allocator returns an
  assignment whose bench has \<open>benchCount\<close> players and is the tail of that length of
  the stable descending sort of the going players; the two teams together are exactly
  the players before that tail, so the assignment loop ran without the bench; no bench
  player has a higher overall skill than any team player; and the sort is descending
  and keeps players of equal overall skill in their input order.
\<close>

theorem bench_selection:
  assumes "0 < benchCount (length ps)"
  shows "\<exists>ta. allocateGoing ps = Inr ta
    \<and> length (benchPlayers ta) = benchCount (length ps)
    \<and> benchPlayers ta = drop (length ps - benchCount (length ps)) (sortByOverallDesc ps)
    \<and> mset (whiteTeam ta) + mset (blackTeam ta)
        = mset (take (length ps - benchCount (length ps)) (sortByOverallDesc ps))
    \<and> (\<forall>b \<in> set (benchPlayers ta). \<forall>a \<in> set (whiteTeam ta) \<union> set (blackTeam ta).
          overallSkill b \<le> overallSkill a)
    \<and> sorted (map (\<lambda>p. - overallSkill p) (sortByOverallDesc ps))
    \<and> (\<forall>k. filter (\<lambda>p. overallSkill p = k) (sortByOverallDesc ps)
             = filter (\<lambda>p. overallSkill p = k) ps)"
proof -
  let ?n = "length ps"
  let ?k = "playersPerTeam1 ?n + playersPerTeam2 ?n"
  let ?s = "sortByOverallDesc ps"
  let ?w = "fst (firstPhase ps)" and ?b = "snd (firstPhase ps)"
  let ?ta = "\<lparr>whiteTeam = ?w, blackTeam = ?b, benchPlayers = drop ?k ?s\<rparr>"
  from assms have "13 \<le> ?n" by (rule benchCount_pos)
  then have two: "2 \<le> ?n" by simp
  have k: "?n - benchCount ?n = ?k" using teamSizes_sum [of ?n] by simp
  have r: "allocateGoing ps = Inr ?ta" using two by (rule allocateGoing_firstPhase)
  have m: "mset ?w + mset ?b = mset (take ?k ?s)" using two by (rule firstPhase_mset)
  have above: "\<forall>b \<in> set (drop ?k ?s). \<forall>a \<in> set ?w \<union> set ?b. overallSkill b \<le> overallSkill a"
  proof (intro ballI)
    fix b a
    assume b: "b \<in> set (drop ?k ?s)" and a: "a \<in> set ?w \<union> set ?b"
    from a have "a \<in># mset ?w + mset ?b" by auto
    then have "a \<in> set (take ?k ?s)" by (simp only: m set_mset_mset)
    then show "overallSkill b \<le> overallSkill a" using b by (rule take_above_drop)
  qed
  show ?thesis
  proof (intro exI conjI)
    show "allocateGoing ps = Inr ?ta" by (rule r)
    show "length (benchPlayers ?ta) = benchCount ?n" using bench_length [of ps] by simp
    show "benchPlayers ?ta = drop (?n - benchCount ?n) ?s" by (simp add: k)
    show "mset (whiteTeam ?ta) + mset (blackTeam ?ta) = mset (take (?n - benchCount ?n) ?s)"
      using m by (simp add: k)
    show "\<forall>b \<in> set (benchPlayers ?ta). \<forall>a \<in> set (whiteTeam ?ta) \<union> set (blackTeam ?ta).
          overallSkill b \<le> overallSkill a"
      using above by simp
    show "sorted (map (\<lambda>p. - overallSkill p) ?s)" by (rule sortByOverallDesc_sorted)
    show "\<forall>k. filter (\<lambda>p. overallSkill p = k) ?s = filter (\<lambda>p. overallSkill p = k) ps"
      by (simp add: sortByOverallDesc_stable)
  qed
qed

theorem bench_selection_witness:
  "0 < benchCount (length scenario2)
   \<and> (\<exists>ta. allocateGoing scenario2 = Inr ta
         \<and> benchPlayers ta = [uniformPlayer 13 1]
         \<and> length (benchPlayers ta) = benchCount (length scenario2)
         \<and> mset (whiteTeam ta) + mset (blackTeam ta)
             = mset (take (length scenario2 - benchCount (length scenario2))
                       (sortByOverallDesc scenario2)))"
proof -
  have h: "0 < benchCount (length scenario2)"
    by (simp add: scenario2_def benchCount_def teamSizes_def)
  have d: "drop (length scenario2 - benchCount (length scenario2)) (sortByOverallDesc scenario2)
           = [uniformPlayer 13 1]"
    by code_simp
  from bench_selection [OF h] obtain ta where
    "allocateGoing scenario2 = Inr ta"
    "length (benchPlayers ta) = benchCount (length scenario2)"
    "benchPlayers ta = drop (length scenario2 - benchCount (length scenario2))
                         (sortByOverallDesc scenario2)"
    "mset (whiteTeam ta) + mset (blackTeam ta)
        = mset (take (length scenario2 - benchCount (length scenario2))
                  (sortByOverallDesc scenario2))"
    by blast
  with h d show ?thesis by auto
qed

text \<open>
  C6 (size-difference bound). For at least two going players whose size plan has no
  bench, the returned assignment has an empty bench and its two teams differ in size by
  at most one.
\<close>

theorem size_difference_bound:
  assumes "2 \<le> length ps" and "benchCount (length ps) = 0"
  shows "\<exists>ta. allocateGoing ps = Inr ta
           \<and> benchPlayers ta = []
           \<and> \<bar>int (length (whiteTeam ta)) - int (length (blackTeam ta))\<bar> \<le> 1"
proof -
  let ?n = "length ps"
  let ?ta = "\<lparr>whiteTeam = fst (firstPhase ps), blackTeam = snd (firstPhase ps),
              benchPlayers = drop (playersPerTeam1 ?n + playersPerTeam2 ?n) (sortByOverallDesc ps)\<rparr>"
  have r: "allocateGoing ps = Inr ?ta" using assms(1) by (rule allocateGoing_firstPhase)
  have e: "benchPlayers ?ta = []" using bench_length [of ps] assms(2) by simp
  have d: "\<bar>int (length (whiteTeam ?ta)) - int (length (blackTeam ?ta))\<bar> \<le> 1"
    using firstPhase_lengths [OF assms(1)] teamSizes_diff [of ?n] by simp
  from r e d show ?thesis by (intro exI conjI)
qed

theorem size_difference_bound_witness:
  "2 \<le> length [uniformPlayer 3 1, uniformPlayer 1 10, uniformPlayer 2 7]
   \<and> benchCount (length [uniformPlayer 3 1, uniformPlayer 1 10, uniformPlayer 2 7]) = 0
   \<and> (\<exists>ta. allocateGoing [uniformPlayer 3 1, uniformPlayer 1 10, uniformPlayer 2 7] = Inr ta
         \<and> benchPlayers ta = []
         \<and> \<bar>int (length (whiteTeam ta)) - int (length (blackTeam ta))\<bar> \<le> 1)"
proof -
  let ?ps = "[uniformPlayer 3 1, uniformPlayer 1 10, uniformPlayer 2 7]"
  have h: "2 \<le> length ?ps" by simp
  have b: "benchCount (length ?ps) = 0" by (simp add: benchCount_def teamSizes_def)
  show ?thesis by (rule conjI [OF h conjI [OF b size_difference_bound [OF h b]]])
qed

text \<open>
  C7 (termination of the repair pass). For at least two going players the allocator
  returns an assignment with the planned sizes that holds every going player once. Each
  of the four repair loops terminates from every pair of teams and for every pair of
  planned sizes (the loops are total functions, by the decreasing length of the team a
  move takes from), and the number of its moves is the size imbalance it starts from:
  \<open>min (perTeam1 - |white|) (|black| - perTeam2)\<close> for the first loop, the mirror image
  for the second, \<open>|white| - perTeam1\<close> for the third and \<open>|black| - perTeam2\<close> for the
  fourth. The whole pass makes at most four moves per player, keeps the number of
  assigned players and the players themselves, and when the two teams together have
  \<open>perTeam1 + perTeam2\<close> players it ends with exactly the planned sizes.
\<close>

theorem allocation_terminates:
  assumes "2 \<le> length ps"
  shows "(\<exists>ta. allocateGoing ps = Inr ta
            \<and> length (whiteTeam ta) = playersPerTeam1 (length ps)
            \<and> length (blackTeam ta) = playersPerTeam2 (length ps)
            \<and> length (benchPlayers ta) = benchCount (length ps)
            \<and> mset (whiteTeam ta @ blackTeam ta @ benchPlayers ta) = mset ps)
       \<and> (\<forall>p1 p2 t.
            fillWhiteMoves p1 p2 t = min (p1 - length (fst t)) (length (snd t) - p2)
          \<and> fillBlackMoves p1 p2 t = min (p2 - length (snd t)) (length (fst t) - p1)
          \<and> trimWhiteMoves p1 t = length (fst t) - p1
          \<and> trimBlackMoves p2 t = length (snd t) - p2
          \<and> adjustSizesMoves p1 p2 t \<le> 4 * (length (fst t) + length (snd t))
          \<and> length (fst (adjustSizes p1 p2 t)) + length (snd (adjustSizes p1 p2 t))
              = length (fst t) + length (snd t)
          \<and> mset (fst (adjustSizes p1 p2 t)) + mset (snd (adjustSizes p1 p2 t))
              = mset (fst t) + mset (snd t)
          \<and> (length (fst t) + length (snd t) = p1 + p2 \<longrightarrow>
               length (fst (adjustSizes p1 p2 t)) = p1
             \<and> length (snd (adjustSizes p1 p2 t)) = p2))"
proof (rule conjI)
  let ?n = "length ps"
  let ?w = "fst (firstPhase ps)" and ?b = "snd (firstPhase ps)"
  let ?bench = "drop (playersPerTeam1 ?n + playersPerTeam2 ?n) (sortByOverallDesc ps)"
  let ?ta = "\<lparr>whiteTeam = ?w, blackTeam = ?b, benchPlayers = ?bench\<rparr>"
  have r: "allocateGoing ps = Inr ?ta" using assms by (rule allocateGoing_firstPhase)
  have m: "mset (?w @ ?b @ ?bench) = mset ps" using assms by (rule allocateGoing_mset)
  note l = firstPhase_lengths [OF assms]
  show "\<exists>ta. allocateGoing ps = Inr ta
            \<and> length (whiteTeam ta) = playersPerTeam1 ?n
            \<and> length (blackTeam ta) = playersPerTeam2 ?n
            \<and> length (benchPlayers ta) = benchCount ?n
            \<and> mset (whiteTeam ta @ blackTeam ta @ benchPlayers ta) = mset ps"
  proof (intro exI conjI)
    show "allocateGoing ps = Inr ?ta" by (rule r)
    show "length (whiteTeam ?ta) = playersPerTeam1 ?n" using l by simp
    show "length (blackTeam ?ta) = playersPerTeam2 ?n" using l by simp
    show "length (benchPlayers ?ta) = benchCount ?n" using bench_length [of ps] by simp
    show "mset (whiteTeam ?ta @ blackTeam ?ta @ benchPlayers ?ta) = mset ps" using m by simp
  qed
next
  show "\<forall>p1 p2 t.
            fillWhiteMoves p1 p2 t = min (p1 - length (fst t)) (length (snd t) - p2)
          \<and> fillBlackMoves p1 p2 t = min (p2 - length (snd t)) (length (fst t) - p1)
          \<and> trimWhiteMoves p1 t = length (fst t) - p1
          \<and> trimBlackMoves p2 t = length (snd t) - p2
          \<and> adjustSizesMoves p1 p2 t \<le> 4 * (length (fst t) + length (snd t))
          \<and> length (fst (adjustSizes p1 p2 t)) + length (snd (adjustSizes p1 p2 t))
              = length (fst t) + length (snd t)
          \<and> mset (fst (adjustSizes p1 p2 t)) + mset (snd (adjustSizes p1 p2 t))
              = mset (fst t) + mset (snd t)
          \<and> (length (fst t) + length (snd t) = p1 + p2 \<longrightarrow>
               length (fst (adjustSizes p1 p2 t)) = p1
             \<and> length (snd (adjustSizes p1 p2 t)) = p2)"
  proof (intro allI conjI impI)
    fix p1 p2 :: nat and t :: "Player list \<times> Player list"
    show "fillWhiteMoves p1 p2 t = min (p1 - length (fst t)) (length (snd t) - p2)"
      using fillWhiteMoves_eq [of p1 p2 "fst t" "snd t"] by simp
    show "fillBlackMoves p1 p2 t = min (p2 - length (snd t)) (length (fst t) - p1)"
      using fillBlackMoves_eq [of p1 p2 "fst t" "snd t"] by simp
    show "trimWhiteMoves p1 t = length (fst t) - p1"
      using trimWhiteMoves_eq [of p1 "fst t" "snd t"] by simp
    show "trimBlackMoves p2 t = length (snd t) - p2"
      using trimBlackMoves_eq [of p2 "fst t" "snd t"] by simp
    show "adjustSizesMoves p1 p2 t \<le> 4 * (length (fst t) + length (snd t))"
      by (rule adjustSizesMoves_bound)
    show "length (fst (adjustSizes p1 p2 t)) + length (snd (adjustSizes p1 p2 t))
              = length (fst t) + length (snd t)"
      by (rule adjustSizes_total)
    show "mset (fst (adjustSizes p1 p2 t)) + mset (snd (adjustSizes p1 p2 t))
              = mset (fst t) + mset (snd t)"
      by (rule adjustSizes_total)
    assume "length (fst t) + length (snd t) = p1 + p2"
    then have s: "length (fst (adjustSizes p1 p2 t)) = p1 \<and> length (snd (adjustSizes p1 p2 t)) = p2"
      by (rule adjustSizes_sizes)
    from s show "length (fst (adjustSizes p1 p2 t)) = p1" ..
    from s show "length (snd (adjustSizes p1 p2 t)) = p2" ..
  qed
qed

theorem allocation_terminates_witness:
  "2 \<le> length scenario2
   \<and> (\<exists>ta. allocateGoing scenario2 = Inr ta
         \<and> length (whiteTeam ta) = 6 \<and> length (blackTeam ta) = 6
         \<and> length (benchPlayers ta) = 1
         \<and> mset (whiteTeam ta @ blackTeam ta @ benchPlayers ta) = mset scenario2)
   \<and> length (fst ([uniformPlayer 1 10], [uniformPlayer 2 7, uniformPlayer 3 1]))
       + length (snd ([uniformPlayer 1 10], [uniformPlayer 2 7, uniformPlayer 3 1])) = 2 + 1
   \<and> adjustSizes 2 1 ([uniformPlayer 1 10], [uniformPlayer 2 7, uniformPlayer 3 1])
       = ([uniformPlayer 1 10, uniformPlayer 3 1], [uniformPlayer 2 7])
   \<and> length (fst (adjustSizes 2 1 ([uniformPlayer 1 10], [uniformPlayer 2 7, uniformPlayer 3 1]))) = 2
   \<and> length (snd (adjustSizes 2 1 ([uniformPlayer 1 10], [uniformPlayer 2 7, uniformPlayer 3 1]))) = 1
   \<and> adjustSizesMoves 2 1 ([uniformPlayer 1 10], [uniformPlayer 2 7, uniformPlayer 3 1]) = 1
   \<and> fillWhiteMoves 2 1 ([uniformPlayer 1 10], [uniformPlayer 2 7, uniformPlayer 3 1]) = 1"
proof -
  let ?t = "([uniformPlayer 1 10], [uniformPlayer 2 7, uniformPlayer 3 1])"
  have h: "2 \<le> length scenario2" by (simp add: scenario2_def)
  have p: "playersPerTeam1 (length scenario2) = 6" "playersPerTeam2 (length scenario2) = 6"
    "benchCount (length scenario2) = 1"
    by (simp_all add: scenario2_def playersPerTeam1_def playersPerTeam2_def benchCount_def
          teamSizes_def)
  note t = allocation_terminates [OF h]
  from t have a: "\<exists>ta. allocateGoing scenario2 = Inr ta
         \<and> length (whiteTeam ta) = 6 \<and> length (blackTeam ta) = 6
         \<and> length (benchPlayers ta) = 1
         \<and> mset (whiteTeam ta @ blackTeam ta @ benchPlayers ta) = mset scenario2"
    unfolding p by (rule conjunct1)
  from t have u: "\<forall>p1 p2 t.
            fillWhiteMoves p1 p2 t = min (p1 - length (fst t)) (length (snd t) - p2)
          \<and> fillBlackMoves p1 p2 t = min (p2 - length (snd t)) (length (fst t) - p1)
          \<and> trimWhiteMoves p1 t = length (fst t) - p1
          \<and> trimBlackMoves p2 t = length (snd t) - p2
          \<and> adjustSizesMoves p1 p2 t \<le> 4 * (length (fst t) + length (snd t))
          \<and> length (fst (adjustSizes p1 p2 t)) + length (snd (adjustSizes p1 p2 t))
              = length (fst t) + length (snd t)
          \<and> mset (fst (adjustSizes p1 p2 t)) + mset (snd (adjustSizes p1 p2 t))
              = mset (fst t) + mset (snd t)
          \<and> (length (fst t) + length (snd t) = p1 + p2 \<longrightarrow>
               length (fst (adjustSizes p1 p2 t)) = p1
             \<and> length (snd (adjustSizes p1 p2 t)) = p2)"
    by (rule conjunct2)
  have s: "length (fst ?t) + length (snd ?t) = 2 + 1" by simp
  from u [rule_format, of 2 1 ?t] s
  have l: "length (fst (adjustSizes 2 1 ?t)) = 2" "length (snd (adjustSizes 2 1 ?t)) = 1"
    and f: "fillWhiteMoves 2 1 ?t = 1"
    by simp_all
  have e: "adjustSizes 2 1 ?t = ([uniformPlayer 1 10, uniformPlayer 3 1], [uniformPlayer 2 7])"
    by code_simp
  have m: "adjustSizesMoves 2 1 ?t = 1" by code_simp
  from h a s e l m f show ?thesis by (intro conjI)
qed



text \<open>
  C9 (the repair pass is a no-op). For at least two going players the active pool has
  exactly \<open>playersPerTeam1 + playersPerTeam2\<close> players, the teams have exactly the
  planned sizes when the assignment loop ends, the four repair loops together make no
  move and leave the teams as they are, and what the allocator returns is the result of
  the assignment loop with the bench.
\<close>

theorem repair_pass_is_noop:
  assumes "2 \<le> length ps"
  shows "length (take (playersPerTeam1 (length ps) + playersPerTeam2 (length ps))
                   (sortByOverallDesc ps))
           = playersPerTeam1 (length ps) + playersPerTeam2 (length ps)
       \<and> length (fst (firstPhase ps)) = playersPerTeam1 (length ps)
       \<and> length (snd (firstPhase ps)) = playersPerTeam2 (length ps)
       \<and> adjustSizesMoves (playersPerTeam1 (length ps)) (playersPerTeam2 (length ps))
            (firstPhase ps) = 0
       \<and> adjustSizes (playersPerTeam1 (length ps)) (playersPerTeam2 (length ps))
            (firstPhase ps) = firstPhase ps
       \<and> allocateGoing ps =
            Inr \<lparr>whiteTeam = fst (firstPhase ps), blackTeam = snd (firstPhase ps),
                 benchPlayers = drop (playersPerTeam1 (length ps) + playersPerTeam2 (length ps))
                                  (sortByOverallDesc ps)\<rparr>"
proof -
  note l = firstPhase_lengths [OF assms]
  from l have "adjustSizesMoves (playersPerTeam1 (length ps)) (playersPerTeam2 (length ps))
            (firstPhase ps) = 0"
    by (simp add: adjustSizesMoves_exact)
  moreover from l have "adjustSizes (playersPerTeam1 (length ps)) (playersPerTeam2 (length ps))
            (firstPhase ps) = firstPhase ps"
    by (simp add: adjustSizes_exact)
  ultimately show ?thesis
    using l active_length [OF assms] allocateGoing_firstPhase [OF assms] by simp
qed

theorem repair_pass_is_noop_witness:
  "2 \<le> length [uniformPlayer 3 1, uniformPlayer 1 10, uniformPlayer 2 7]
   \<and> firstPhase [uniformPlayer 3 1, uniformPlayer 1 10, uniformPlayer 2 7]
       = ([uniformPlayer 1 10, uniformPlayer 3 1], [uniformPlayer 2 7])
   \<and> adjustSizesMoves 2 1 ([uniformPlayer 1 10, uniformPlayer 3 1], [uniformPlayer 2 7]) = 0
   \<and> adjustSizes 2 1 ([uniformPlayer 1 10, uniformPlayer 3 1], [uniformPlayer 2 7])
       = ([uniformPlayer 1 10, uniformPlayer 3 1], [uniformPlayer 2 7])
   \<and> allocateGoing [uniformPlayer 3 1, uniformPlayer 1 10, uniformPlayer 2 7]
       = Inr \<lparr>whiteTeam = [uniformPlayer 1 10, uniformPlayer 3 1],
              blackTeam = [uniformPlayer 2 7], benchPlayers = []\<rparr>"
proof -
  let ?ps = "[uniformPlayer 3 1, uniformPlayer 1 10, uniformPlayer 2 7]"
  have f: "firstPhase ?ps = ([uniformPlayer 1 10, uniformPlayer 3 1], [uniformPlayer 2 7])"
    by code_simp
  have p: "playersPerTeam1 (length ?ps) = 2" "playersPerTeam2 (length ?ps) = 1"
    by code_simp+
  have s: "drop (2 + 1) (sortByOverallDesc ?ps) = []"
    by (simp add: sortByOverallDesc_def)
  have h: "2 \<le> length ?ps" by simp
  from repair_pass_is_noop [OF h] show ?thesis
    unfolding f p s by simp
qed

text \<open>
  C10 (degenerate input on the client). For a \<open>null\<close> or \<open>undefined\<close> argument and
  for every list of fewer than two players \<open>generateBalancedTeams\<close> returns two empty
  teams.
\<close>

theorem client_degenerate_input:
  "generateBalancedTeams None = ([], [])
   \<and> (length ps < 2 \<longrightarrow> generateBalancedTeams (Some ps) = ([], []))"
  by (simp add: generateBalancedTeams_def)

theorem client_degenerate_input_witness:
  "length [uniformPlayer 1 5] < 2
   \<and> generateBalancedTeams None = ([], [])
   \<and> generateBalancedTeams (Some [uniformPlayer 1 5]) = ([], [])
   \<and> generateBalancedTeams (Some []) = ([], [])"
  using client_degenerate_input [of "[uniformPlayer 1 5]"] client_degenerate_input [of "[]"]
  by simp

end
